theory Spec2Isabelle
  imports Main "HOL-Library.Word"
begin

unbundle bit_operations_syntax

section \<open>Data model of deserialize.go\<close>

text \<open>
  The development embeds the buffer-based parser of \<^verbatim>\<open>deserialize.go\<close>
  (\<^verbatim>\<open>ParseSerializedObject(buf []byte)\<close> over \<^verbatim>\<open>serializedObjectParser\<close>
  with the fields \<^verbatim>\<open>buf\<close>, \<^verbatim>\<open>pos\<close> and \<^verbatim>\<open>handles\<close>). The file also holds a
  variant of the same parser that reads from an \<^verbatim>\<open>io.Reader\<close>; it is not modelled here.

  Go's \<^verbatim>\<open>interface{}\<close> values are the datatype \<open>val\<close>. Integers keep their width
  as words, floats are kept as the bit pattern that \<^verbatim>\<open>binary.Read\<close> decodes, a
  \<^verbatim>\<open>map[string]interface{}\<close> is an association list with distinct keys, and a
  \<^verbatim>\<open>*clazz\<close> is an address into the store \<open>clazzes\<close> of the parser state
  (\<open>None\<close> is the nil pointer), because a class descriptor is registered as a handle
  first and filled in afterwards.
\<close>

type_synonym byte = "8 word"

datatype val =
    VNil
  | VInt8 "8 word"
  | VInt16 "16 word"
  | VInt32 "32 word"
  | VInt64 "64 word"
  | VFloat32 "32 word"
  | VFloat64 "64 word"
  | VBool bool
  | VString string
  | VBytes "byte list"
  | VSlice "val list"
  | VMap "(string \<times> val) list"
  | VBoolMap "(string \<times> bool) list"
  | VClazz "nat option"
  | VEndBlock
  | VTime "64 word"

type_synonym gomap = "(string \<times> val) list"

text \<open>
  Every \<^verbatim>\<open>errors.New\<close> and \<^verbatim>\<open>errors.Errorf\<close> of the source is one constructor,
  named after the error kind of the specification; \<open>Wrapped msg e\<close> is
  \<^verbatim>\<open>errors.Wrap(e, msg)\<close>.
\<close>

datatype error =
    UnexpectedEnd \<comment> \<open>\<^verbatim>\<open>premature end of input\<close>\<close>
  | BadMagic \<comment> \<open>\<^verbatim>\<open>magic value STREAM_MAGIC not found\<close>\<close>
  | BadVersion "16 word" \<comment> \<open>\<^verbatim>\<open>protocol version not recognized: wanted 5 got %d\<close>\<close>
  | UnknownTag byte \<comment> \<open>\<^verbatim>\<open>unknown type %#x\<close>\<close>
  | TagNotAllowedHere string \<comment> \<open>\<^verbatim>\<open>%s not allowed here\<close>\<close>
  | Unsupported string \<comment> \<open>\<^verbatim>\<open>parsing %s is currently not supported\<close>\<close>
  | StringTooLong \<comment> \<open>\<^verbatim>\<open>unable to read string larger than 2^32 bytes\<close>\<close>
  | UnexpectedFieldClassName \<comment> \<open>\<^verbatim>\<open>unexpected field class name type\<close>\<close>
  | UnexpectedClassDescType
      \<comment> \<open>\<^verbatim>\<open>unexpected type returned while reading class description\<close>\<close>
  | UnknownFieldType string \<comment> \<open>\<^verbatim>\<open>unknown field type '%s'\<close>\<close>
  | NilClassDefinition \<comment> \<open>\<^verbatim>\<open>invalid class definition: nil\<close>\<close>
  | Version1ExternalUnsupported \<comment> \<open>\<^verbatim>\<open>unable to parse version 1 external content\<close>\<close>
  | UnknownClassFlags byte \<comment> \<open>\<^verbatim>\<open>unable to deserialize class with flags %#x\<close>\<close>
  | UnexpectedExtends \<comment> \<open>\<^verbatim>\<open>unexpected extends value\<close>\<close>
  | UnexpectedShape string \<comment> \<open>the errors of the post-processors, with their message\<close>
  | RuntimePanic \<comment> \<open>an index out of range\<close>
  | Wrapped string error

text \<open>
  \<^verbatim>\<open>github.com/pkg/errors\<close>: \<^verbatim>\<open>Wrap\<close> and \<^verbatim>\<open>Wrapf\<close> return nil when the error they
  are given is nil. A Go \<^verbatim>\<open>error\<close> variable is an \<open>error option\<close>.
\<close>

fun Wrapf :: "error option \<Rightarrow> string \<Rightarrow> error option" where
  "Wrapf None msg = None"
| "Wrapf (Some e) msg = Some (Wrapped msg e)"

record field =
  f_className :: string
  f_typeName :: string
  f_name :: string

record clazz =
  c_super :: "nat option"
  c_annotations :: "val list"
  c_fields :: "field option list"
  c_serialVersionUID :: string
  c_name :: string
  c_flags :: byte
  c_isEnum :: bool

definition new_clazz :: clazz where
  "new_clazz = \<lparr>c_super = None, c_annotations = [], c_fields = [], c_serialVersionUID = [],
     c_name = [], c_flags = 0, c_isEnum = False\<rparr>"

record serializedObjectParser =
  buf :: "byte list"
  pos :: nat
  handles :: "val list"
  clazzes :: "clazz list"

type_synonym sop = serializedObjectParser

subsection \<open>Maps, slices, strings\<close>

fun mapSet :: "('k \<times> 'v) list \<Rightarrow> 'k \<Rightarrow> 'v \<Rightarrow> ('k \<times> 'v) list" where
  "mapSet [] k v = [(k, v)]"
| "mapSet ((k', v') # m) k v = (if k' = k then (k, v) # m else (k', v') # mapSet m k v)"

definition mapGet :: "('k \<times> 'v) list \<Rightarrow> 'k \<Rightarrow> 'v option" where
  "mapGet m k = map_of m k"

text \<open>\<^verbatim>\<open>xs[lo:hi]\<close> for \<open>lo \<le> hi \<le> length xs\<close>, the only way the source uses it.\<close>

definition slice :: "'a list \<Rightarrow> nat \<Rightarrow> nat \<Rightarrow> 'a list" where
  "slice xs lo hi = take (hi - lo) (drop lo xs)"

definition byte_char :: "byte \<Rightarrow> char" where
  "byte_char b = Char (bit b 0) (bit b 1) (bit b 2) (bit b 3) (bit b 4) (bit b 5) (bit b 6) (bit b 7)"

text \<open>\<^verbatim>\<open>string(bytes)\<close>: a Go string is its bytes.\<close>

definition string_of_bytes :: "byte list \<Rightarrow> string" where
  "string_of_bytes bs = map byte_char bs"

text \<open>\<^verbatim>\<open>binary.Read(..., binary.BigEndian, &x)\<close> on exactly the bytes of \<open>x\<close>.\<close>

definition bigEndian :: "byte list \<Rightarrow> 'a::len word" where
  "bigEndian bs = foldl (\<lambda>w b. push_bit 8 w OR ucast b) 0 bs"

section \<open>Post-processors\<close>

text \<open>
  \<^verbatim>\<open>postProcSize(data, offset)\<close>: the int32 at \<open>offset\<close> of the first annotation
  element, as a Go \<^verbatim>\<open>int\<close>.
\<close>

definition postProcSize :: "val list \<Rightarrow> nat \<Rightarrow> error + int" where
  "postProcSize data offset =
     (if length data < 1 then Inl (UnexpectedShape ''invalid data: at least one element required'')
      else case data ! 0 of
        VBytes b \<Rightarrow>
          if length b < offset + 4 then Inl (UnexpectedShape ''incorrect data at position 0'')
          else Inr (sint (bigEndian (slice b offset (offset + 4)) :: 32 word))
      | _ \<Rightarrow> Inl (UnexpectedShape ''unexpected data at position 0''))"

definition listPostProc :: "gomap \<Rightarrow> val list \<Rightarrow> error + gomap" where
  "listPostProc flds data =
     (case postProcSize data 0 of
        Inl e \<Rightarrow> Inl e
      | Inr sz \<Rightarrow>
          if int (length data) \<noteq> sz + 1 then Inl (UnexpectedShape ''incorrect number of elements'')
          else if sz > 1 then Inr (mapSet flds ''value'' (VSlice (slice data 1 (nat sz))))
          else Inr (mapSet flds ''value'' (VSlice [])))"

text \<open>
  The loop \<^verbatim>\<open>for i := 0; i < size; i++\<close> of \<^verbatim>\<open>mapPostProc\<close>, run \<open>n\<close> times from the
  empty map \<^verbatim>\<open>m\<close>.
\<close>

definition mapPostProc_loop :: "val list \<Rightarrow> nat \<Rightarrow> gomap" where
  "mapPostProc_loop data n =
     foldl (\<lambda>m i.
              let key = data ! (2 * i + 1); v = data ! (2 * i + 2)
              in case key of VString s \<Rightarrow> mapSet m s v | _ \<Rightarrow> m) [] [0..<n]"

definition mapPostProc :: "gomap \<Rightarrow> val list \<Rightarrow> error + gomap" where
  "mapPostProc flds data =
     (case postProcSize data 4 of
        Inl e \<Rightarrow> Inl e
      | Inr sz \<Rightarrow>
          if sz * 2 + 1 > int (length data) then Inl (UnexpectedShape ''incorrect number of elements'')
          else Inr (mapSet flds ''value'' (VMap (mapPostProc_loop data (nat sz)))))"

definition enumMapPostProc_loop :: "val list \<Rightarrow> nat \<Rightarrow> gomap" where
  "enumMapPostProc_loop data n =
     foldl (\<lambda>m i.
              let key = data ! (2 * i + 1); v = data ! (2 * i + 2)
              in case key of
                   VMap mk \<Rightarrow> (case mapGet mk ''value'' of Some (VString s) \<Rightarrow> mapSet m s v | _ \<Rightarrow> m)
                 | _ \<Rightarrow> m) [] [0..<n]"

definition enumMapPostProc :: "gomap \<Rightarrow> val list \<Rightarrow> error + gomap" where
  "enumMapPostProc flds data =
     (case postProcSize data 0 of
        Inl e \<Rightarrow> Inl e
      | Inr sz \<Rightarrow>
          if sz * 2 + 1 > int (length data) then Inl (UnexpectedShape ''incorrect number of elements'')
          else Inr (mapSet flds ''value'' (VMap (enumMapPostProc_loop data (nat sz)))))"

text \<open>
  The loop \<^verbatim>\<open>for idx := range data[1:size]\<close> of \<^verbatim>\<open>hashSetPostProc\<close>: \<open>idx\<close> runs over
  the indices of the slice, and the body reads \<^verbatim>\<open>data[idx+1]\<close>.
\<close>

definition hashSetPostProc_loop :: "val list \<Rightarrow> nat \<Rightarrow> (string \<times> bool) list" where
  "hashSetPostProc_loop data sz =
     foldl (\<lambda>m idx.
              let key = data ! (idx + 1)
              in case key of VString s \<Rightarrow> mapSet m s True | _ \<Rightarrow> m)
       [] [0..<length (slice data 1 sz)]"

definition hashSetPostProc :: "gomap \<Rightarrow> val list \<Rightarrow> error + gomap" where
  "hashSetPostProc flds data =
     (case postProcSize data 8 of
        Inl e \<Rightarrow> Inl e
      | Inr sz \<Rightarrow>
          if int (length data) \<noteq> sz + 1 then Inl (UnexpectedShape ''incorrect number of elements'')
          else
            let m = (if sz > 1 then hashSetPostProc_loop data (nat sz) else [])
            in Inr (mapSet flds ''value'' (VBoolMap m)))"

text \<open>
  \<^verbatim>\<open>time.Unix(0, timestamp*int64(time.Millisecond))\<close>: the time is kept as its
  nanoseconds since the epoch, an int64 product that wraps.
\<close>

definition datePostProc :: "gomap \<Rightarrow> val list \<Rightarrow> error + gomap" where
  "datePostProc flds data =
     (if length data < 1 then Inl (UnexpectedShape ''invalid data: at least one element required'')
      else case data ! 0 of
        VBytes b \<Rightarrow>
          if length b < 8 then Inl (UnexpectedShape ''incorrect data at position 0'')
          else Inr (mapSet flds ''value'' (VTime ((bigEndian (slice b 0 8) :: 64 word) * 1000000)))
      | _ \<Rightarrow> Inl (UnexpectedShape ''unexpected data at position 0''))"

definition KnownPostProcs :: "string \<Rightarrow> (gomap \<Rightarrow> val list \<Rightarrow> error + gomap) option" where
  "KnownPostProcs sig =
     (if sig = ''java.util.ArrayList@7881d21d99c7619d'' then Some listPostProc
      else if sig = ''java.util.ArrayDeque@207cda2e240da08b'' then Some listPostProc
      else if sig = ''java.util.Hashtable@13bb0f25214ae4b8'' then Some mapPostProc
      else if sig = ''java.util.HashMap@0507dac1c31660d1'' then Some mapPostProc
      else if sig = ''java.util.EnumMap@065d7df7be907ca1'' then Some enumMapPostProc
      else if sig = ''java.util.HashSet@ba44859596b8b734'' then Some hashSetPostProc
      else if sig = ''java.util.Date@686a81014b597419'' then Some datePostProc
      else None)"

section \<open>Byte reader\<close>

text \<open>
  A method of \<^verbatim>\<open>*serializedObjectParser\<close> takes the parser state and returns its result
  or its error together with the new state. The outer \<open>option\<close> is \<open>None\<close> only when
  the recursion budget of \<open>content\<close> below is used up. Go's \<^verbatim>\<open>int\<close> is taken to be
  64 bits wide, so that \<^verbatim>\<open>int(x)\<close> of an unsigned 8, 16 or 32 bit \<open>x\<close> is \<open>unat x\<close> and
  \<^verbatim>\<open>pos\<close> cannot overflow.
\<close>

type_synonym 'a M = "sop \<Rightarrow> ((error + 'a) \<times> sop) option"

definition ret :: "'a \<Rightarrow> 'a M" where
  "ret x s = Some (Inr x, s)"

definition throw :: "error \<Rightarrow> 'a M" where
  "throw e s = Some (Inl e, s)"

definition andThen :: "'a M \<Rightarrow> ('a \<Rightarrow> 'b M) \<Rightarrow> 'b M" where
  "andThen m f s =
     (case m s of
        None \<Rightarrow> None
      | Some (Inl e, s') \<Rightarrow> Some (Inl e, s')
      | Some (Inr x, s') \<Rightarrow> f x s')"

text \<open>\<^verbatim>\<open>if err != nil { err = errors.Wrap(err, msg); return }\<close>\<close>

definition wrapErr :: "string \<Rightarrow> 'a M \<Rightarrow> 'a M" where
  "wrapErr msg m s =
     (case m s of
        Some (Inl e, s') \<Rightarrow> Some (Inl (Wrapped msg e), s')
      | r \<Rightarrow> r)"

definition step :: "nat \<Rightarrow> nat M" where
  "step cnt s =
     (let p = pos s; s' = s\<lparr>pos := pos s + cnt\<rparr>
      in if pos s' > length (buf s') then Some (Inl UnexpectedEnd, s') else Some (Inr p, s'))"

definition hexdigit :: "nat \<Rightarrow> char" where
  "hexdigit n = ''0123456789abcdef'' ! n"

text \<open>\<^verbatim>\<open>fmt.Sprintf("%x", bytes)\<close>\<close>

definition hex_of_bytes :: "byte list \<Rightarrow> string" where
  "hex_of_bytes bs = concat (map (\<lambda>b. [hexdigit (unat b div 16), hexdigit (unat b mod 16)]) bs)"

definition readString :: "nat \<Rightarrow> bool \<Rightarrow> string M" where
  "readString cnt asHex =
     andThen (wrapErr ''error reading string'' (step cnt)) (\<lambda>p s.
       ret (if asHex then hex_of_bytes (slice (buf s) p (pos s))
            else string_of_bytes (slice (buf s) p (pos s))) s)"

definition readUInt8 :: "8 word M" where
  "readUInt8 = andThen (step 1) (\<lambda>offset s. ret (bigEndian (slice (buf s) offset (offset + 1))) s)"

definition readInt8 :: "8 word M" where
  "readInt8 = andThen (step 1) (\<lambda>offset s. ret (bigEndian (slice (buf s) offset (offset + 1))) s)"

definition readUInt16 :: "16 word M" where
  "readUInt16 = andThen (step 2) (\<lambda>offset s. ret (bigEndian (slice (buf s) offset (offset + 2))) s)"

definition readInt16 :: "16 word M" where
  "readInt16 = andThen (step 2) (\<lambda>offset s. ret (bigEndian (slice (buf s) offset (offset + 2))) s)"

definition readUInt32 :: "32 word M" where
  "readUInt32 = andThen (step 4) (\<lambda>offset s. ret (bigEndian (slice (buf s) offset (offset + 4))) s)"

definition readInt32 :: "32 word M" where
  "readInt32 = andThen (step 4) (\<lambda>offset s. ret (bigEndian (slice (buf s) offset (offset + 4))) s)"

definition readFloat32 :: "32 word M" where
  "readFloat32 = andThen (step 4) (\<lambda>offset s. ret (bigEndian (slice (buf s) offset (offset + 4))) s)"

definition readInt64 :: "64 word M" where
  "readInt64 = andThen (step 8) (\<lambda>offset s. ret (bigEndian (slice (buf s) offset (offset + 8))) s)"

definition readFloat64 :: "64 word M" where
  "readFloat64 = andThen (step 8) (\<lambda>offset s. ret (bigEndian (slice (buf s) offset (offset + 8))) s)"

definition utf :: "string M" where
  "utf =
     andThen (wrapErr ''error reading utf: unable to read segment length'' readUInt16) (\<lambda>offset.
       wrapErr ''error reading utf: unable to read segment'' (readString (unat offset) False))"

definition utfLong :: "string M" where
  "utfLong =
     andThen (wrapErr ''error reading utf: unable to read first segment length'' readUInt32) (\<lambda>offset.
       if offset \<noteq> 0 then throw StringTooLong
       else
         andThen (wrapErr ''error reading utf long: unable to read second segment length'' readUInt32)
           (\<lambda>offset.
              wrapErr ''error reading utf long: unable to read segment'' (readString (unat offset) False)))"

definition magic :: "unit M" where
  "magic =
     andThen readUInt16 (\<lambda>magicVal. if magicVal \<noteq> 0xaced then throw BadMagic else ret ())"

text \<open>
  \<^verbatim>\<open>version\<close> tests \<^verbatim>\<open>ver != 5\<close> before it looks at the error of the read, so a read
  that fails leaves \<^verbatim>\<open>ver = 0\<close> and reports the version error.
\<close>

definition version :: "unit M" where
  "version s =
     (case readUInt16 s of
        None \<Rightarrow> None
      | Some (Inl e, s') \<Rightarrow> Some (Inl (BadVersion 0), s')
      | Some (Inr ver, s') \<Rightarrow> if ver \<noteq> 5 then Some (Inl (BadVersion ver), s') else Some (Inr (), s'))"

section \<open>Handle table and class store\<close>

definition newHandle :: "val \<Rightarrow> val M" where
  "newHandle obj s = Some (Inr obj, s\<lparr>handles := handles s @ [obj]\<rparr>)"

text \<open>
  \<^verbatim>\<open>newDeferredHandle\<close> returns a closure over \<^verbatim>\<open>idx\<close>; here it returns \<open>idx\<close>, and
  \<open>deferredHandle idx obj\<close> is the call of the closure.
\<close>

definition newDeferredHandle :: "nat M" where
  "newDeferredHandle s = Some (Inr (length (handles s)), s\<lparr>handles := handles s @ [VNil]\<rparr>)"

definition deferredHandle :: "nat \<Rightarrow> val \<Rightarrow> val M" where
  "deferredHandle idx obj s = Some (Inr obj, s\<lparr>handles := (handles s)[idx := obj]\<rparr>)"

text \<open>\<^verbatim>\<open>cls := &clazz{}\<close> allocates the next address of the class store.\<close>

definition allocClazz :: "nat M" where
  "allocClazz s = Some (Inr (length (clazzes s)), s\<lparr>clazzes := clazzes s @ [new_clazz]\<rparr>)"

definition setClazz :: "nat \<Rightarrow> (clazz \<Rightarrow> clazz) \<Rightarrow> unit M" where
  "setClazz a f s = Some (Inr (), s\<lparr>clazzes := (clazzes s)[a := f (clazzes s ! a)]\<rparr>)"

definition getClazz :: "nat \<Rightarrow> clazz M" where
  "getClazz a s = Some (Inr (clazzes s ! a), s)"

section \<open>Tag dispatcher and type parsers\<close>

text \<open>
  The parsers call each other through \<^verbatim>\<open>sop.content\<close>. Each of them takes the function
  \<open>c\<close> that stands for \<^verbatim>\<open>sop.content\<close> in its body, and \<open>content\<close> closes the
  recursion at the end of this section with a budget \<open>n\<close> that bounds the depth of the
  calls; the unbounded loop of \<^verbatim>\<open>annotations\<close> and the walk of \<^verbatim>\<open>recursiveClassData\<close>
  along \<^verbatim>\<open>super\<close> count against the same budget.

  \<open>allowedNames\<close>: \<open>None\<close> is the nil map, \<open>Some ns\<close> the map whose true keys are \<open>ns\<close>.
\<close>

type_synonym contentFn = "string list option \<Rightarrow> val M"

definition typeNames :: "string list" where
  "typeNames = [''Null'', ''Reference'', ''ClassDesc'', ''Object'', ''String'', ''Array'', ''Class'',
     ''BlockData'', ''EndBlockData'', ''Reset'', ''BlockDataLong'', ''Exception'', ''LongString'',
     ''ProxyClassDesc'', ''Enum'']"

definition typeNameMax :: "8 word" where
  "typeNameMax = of_nat (length typeNames - 1)"

definition allowedClazzNames :: "string list" where
  "allowedClazzNames = [''ClassDesc'', ''ProxyClassDesc'', ''Null'', ''Reference'']"

text \<open>
  \<^verbatim>\<open>string(x)\<close> of an integer \<open>x\<close> is the UTF-8 encoding of the code point \<open>x\<close>; the source
  applies it to \<^verbatim>\<open>uint8\<close> and \<^verbatim>\<open>uint16\<close> values only, and a surrogate becomes U+FFFD.
\<close>

definition utf8_of_rune :: "nat \<Rightarrow> byte list" where
  "utf8_of_rune r =
     (if r < 0x80 then [of_nat r]
      else if r < 0x800 then [0xC0 OR of_nat (r div 64), 0x80 OR of_nat (r mod 64)]
      else if 0xD800 \<le> r \<and> r \<le> 0xDFFF then [0xEF, 0xBF, 0xBD]
      else [0xE0 OR of_nat (r div 4096), 0x80 OR of_nat ((r div 64) mod 64), 0x80 OR of_nat (r mod 64)])"

definition string_of_rune :: "nat \<Rightarrow> string" where
  "string_of_rune r = string_of_bytes (utf8_of_rune r)"

text \<open>\<^verbatim>\<open>strings.Contains(s, substr)\<close>\<close>

fun Contains :: "string \<Rightarrow> string \<Rightarrow> bool" where
  "Contains [] substr = (substr = [])"
| "Contains (x # s) substr = (take (length substr) (x # s) = substr \<or> Contains s substr)"

definition primitiveHandlers :: "contentFn \<Rightarrow> string \<Rightarrow> val M option" where
  "primitiveHandlers c t =
     (if t = ''B'' then Some (andThen (wrapErr ''error reading byte primitive'' readInt8) (\<lambda>b. ret (VInt8 b)))
      else if t = ''C'' then
        Some (andThen (wrapErr ''error reading char primitive'' readUInt16)
               (\<lambda>charCode. ret (VString (string_of_rune (unat charCode)))))
      else if t = ''D'' then
        Some (andThen (wrapErr ''error reading double primitive'' readFloat64) (\<lambda>d. ret (VFloat64 d)))
      else if t = ''F'' then
        Some (andThen (wrapErr ''error reading float primitive'' readFloat32) (\<lambda>f. ret (VFloat32 f)))
      else if t = ''I'' then
        Some (andThen (wrapErr ''error reading int primitive'' readInt32) (\<lambda>i. ret (VInt32 i)))
      else if t = ''J'' then
        Some (andThen (wrapErr ''error reading long primitive'' readInt64) (\<lambda>l. ret (VInt64 l)))
      else if t = ''S'' then
        Some (andThen (wrapErr ''error reading short primitive'' readInt16) (\<lambda>i. ret (VInt16 i)))
      else if t = ''Z'' then
        Some (andThen (wrapErr ''error reading boolean primitive'' readInt8) (\<lambda>x. ret (VBool (x \<noteq> 0))))
      else if t = ''L'' then Some (wrapErr ''error reading object primitive'' (c None))
      else if t = ''['' then Some (wrapErr ''error reading array primitive'' (c None))
      else None)"

definition fieldDesc :: "contentFn \<Rightarrow> field option M" where
  "fieldDesc c =
     andThen (wrapErr ''error reading field type'' readUInt8) (\<lambda>typeDec.
     andThen (wrapErr ''error reading field name'' utf) (\<lambda>nm.
       let typeName = string_of_rune (unat typeDec);
           f = \<lparr>f_className = [], f_typeName = typeName, f_name = nm\<rparr>
       in if Contains ''[L'' typeName then
            andThen (wrapErr ''error reading field class name'' (c None)) (\<lambda>className.
              case className of
                VString str \<Rightarrow> ret (Some (f\<lparr>f_className := str\<rparr>))
              | _ \<Rightarrow> throw UnexpectedFieldClassName)
          else ret (Some f)))"

text \<open>The loop \<^verbatim>\<open>for { ... }\<close> of \<^verbatim>\<open>annotations\<close>, one unit of budget for each turn.\<close>

fun annotations_loop :: "nat \<Rightarrow> val M \<Rightarrow> val list \<Rightarrow> val list M" where
  "annotations_loop 0 m anns = (\<lambda>s. None)"
| "annotations_loop (Suc k) m anns =
     andThen (wrapErr ''error reading class annotation'' m) (\<lambda>ann.
       if ann = VEndBlock then ret anns else annotations_loop k m (anns @ [ann]))"

definition annotations :: "contentFn \<Rightarrow> nat \<Rightarrow> string list option \<Rightarrow> val list M" where
  "annotations c n allowedNames = annotations_loop n (c allowedNames) []"

definition classDesc :: "contentFn \<Rightarrow> nat option M" where
  "classDesc c =
     andThen (wrapErr ''error reading class description'' (c (Some allowedClazzNames))) (\<lambda>x.
       case x of
         VNil \<Rightarrow> ret None
       | VClazz cls \<Rightarrow> ret cls
       | _ \<Rightarrow> throw UnexpectedClassDescType)"

text \<open>The loop over \<^verbatim>\<open>fieldCount\<close> of \<^verbatim>\<open>parseClassDesc\<close>; \<open>k\<close> fields are left to read.\<close>

fun fields_loop :: "contentFn \<Rightarrow> nat \<Rightarrow> nat \<Rightarrow> unit M" where
  "fields_loop c cls 0 = ret ()"
| "fields_loop c cls (Suc k) =
     andThen (wrapErr ''error reading class field'' (fieldDesc c)) (\<lambda>f.
     andThen (setClazz cls (\<lambda>r. r\<lparr>c_fields := c_fields r @ [f]\<rparr>)) (\<lambda>_.
       fields_loop c cls k))"

text \<open>
  \<^verbatim>\<open>parseClassDesc\<close>. When the name is shorter than two bytes the source runs
  \<^verbatim>\<open>err = errors.Wrapf(err, "invalid class name: '%s'", cls.name); return\<close> with
  \<^verbatim>\<open>err\<close> still nil from the read of the name, so it returns what \<open>Wrapf None\<close> is.
\<close>

definition parseClassDesc :: "contentFn \<Rightarrow> nat \<Rightarrow> val M" where
  "parseClassDesc c n =
     andThen allocClazz (\<lambda>cls.
     andThen (wrapErr ''error reading class name'' utf) (\<lambda>nm.
     andThen (setClazz cls (\<lambda>r. r\<lparr>c_name := nm\<rparr>)) (\<lambda>_.
       if length nm < 2 then
         (case Wrapf None ''invalid class name'' of None \<Rightarrow> ret VNil | Some e \<Rightarrow> throw e)
       else
     andThen (wrapErr ''error reading class serialVersionUID'' (readString 8 True)) (\<lambda>uid.
     andThen (setClazz cls (\<lambda>r. r\<lparr>c_serialVersionUID := uid\<rparr>)) (\<lambda>_.
     andThen (newHandle (VClazz (Some cls))) (\<lambda>_.
     andThen (wrapErr ''error reading class flags'' readUInt8) (\<lambda>fl.
     andThen (setClazz cls (\<lambda>r. r\<lparr>c_flags := fl, c_isEnum := (fl AND 0x10 \<noteq> 0)\<rparr>)) (\<lambda>_.
     andThen (wrapErr ''error reading class field count'' readUInt16) (\<lambda>fieldCount.
     andThen (fields_loop c cls (unat fieldCount)) (\<lambda>_.
     andThen (wrapErr ''error reading class annotations'' (annotations c n None)) (\<lambda>anns.
     andThen (setClazz cls (\<lambda>r. r\<lparr>c_annotations := anns\<rparr>)) (\<lambda>_.
     andThen (wrapErr ''error reading class super'' (classDesc c)) (\<lambda>superCls.
     andThen (setClazz cls (\<lambda>r. r\<lparr>c_super := superCls\<rparr>)) (\<lambda>_.
       ret (VClazz (Some cls))))))))))))))))"

definition parseClass :: "contentFn \<Rightarrow> val M" where
  "parseClass c =
     andThen (wrapErr ''error parsing class'' (classDesc c)) (\<lambda>cd. newHandle (VClazz cd))"

definition parseReference :: "val M" where
  "parseReference =
     andThen (wrapErr ''error reading reference index'' readInt32) (\<lambda>refIdx s.
       let i = sint (refIdx - 0x7e0000)
       in if i > -1 \<and> i < int (length (handles s)) then ret (handles s ! nat i) s else ret VNil s)"

text \<open>The loop over \<^verbatim>\<open>size\<close> of \<^verbatim>\<open>parseArray\<close>; \<open>k\<close> members are left to read.\<close>

fun array_loop :: "val M \<Rightarrow> nat \<Rightarrow> val list \<Rightarrow> val list M" where
  "array_loop primHandler 0 array = ret array"
| "array_loop primHandler (Suc k) array =
     andThen (wrapErr ''error reading primitive array member'' primHandler) (\<lambda>nxt.
       array_loop primHandler k (array @ [nxt]))"

text \<open>
  \<^verbatim>\<open>parseArray\<close> registers the map \<^verbatim>\<open>res\<close> and writes \<^verbatim>\<open>res["length"]\<close> afterwards. The
  handle is the only other reference to \<^verbatim>\<open>res\<close> at that point (nothing is parsed in
  between), so the write is the update of that handle. No other map of the source is
  written after a second reference to it exists.
\<close>

definition parseArray :: "contentFn \<Rightarrow> val M" where
  "parseArray c =
     andThen (wrapErr ''error parsing array class'' (classDesc c)) (\<lambda>cls.
     andThen (\<lambda>s. ret (length (handles s)) s) (\<lambda>idx.
     andThen (newHandle (VMap [(''class'', VClazz cls)])) (\<lambda>_.
     andThen (wrapErr ''error reading array size'' readInt32) (\<lambda>sz.
     andThen (deferredHandle idx (VMap [(''class'', VClazz cls), (''length'', VInt32 sz)])) (\<lambda>_.
       case cls of
         None \<Rightarrow> ret VNil
       | Some a \<Rightarrow>
           andThen (getClazz a) (\<lambda>r.
             if length (c_name r) < 2 then throw RuntimePanic
             else
               let t = string_of_rune (of_char (c_name r ! 1))
               in case primitiveHandlers c t of
                    None \<Rightarrow> throw (UnknownFieldType t)
                  | Some primHandler \<Rightarrow>
                      andThen (array_loop primHandler (nat (sint sz)) []) (\<lambda>array.
                        ret (VSlice array))))))))"

definition parseEnum :: "contentFn \<Rightarrow> val M" where
  "parseEnum c =
     andThen (wrapErr ''error parsing enum class'' (classDesc c)) (\<lambda>cls.
     andThen newDeferredHandle (\<lambda>idx.
     andThen (wrapErr ''error parsing enum constant'' (c None)) (\<lambda>enumConstant.
       deferredHandle idx (VMap [(''value'', enumConstant), (''class'', VClazz cls)]))))"

definition parseBlockData :: "val M" where
  "parseBlockData =
     andThen (wrapErr ''error parsing block data size'' readUInt8) (\<lambda>sz.
     andThen (step (unat sz)) (\<lambda>startPos s.
       ret (VBytes (slice (buf s) startPos (pos s))) s))"

definition parseBlockDataLong :: "val M" where
  "parseBlockDataLong =
     andThen (wrapErr ''error parsing block data long size'' readUInt32) (\<lambda>sz.
     andThen (step (unat sz)) (\<lambda>startPos s.
       ret (VBytes (slice (buf s) startPos (pos s))) s))"

definition parseString :: "val M" where
  "parseString = andThen (wrapErr ''error parsing string'' utf) (\<lambda>str. newHandle (VString str))"

definition parseLongString :: "val M" where
  "parseLongString =
     andThen (wrapErr ''error parsing long string'' utfLong) (\<lambda>longStr. newHandle (VString longStr))"

definition parseNull :: "val M" where
  "parseNull = ret VNil"

definition parseEndBlockData :: "val M" where
  "parseEndBlockData = ret VEndBlock"

section \<open>Class-data reader\<close>

text \<open>The loop of \<^verbatim>\<open>values\<close> over \<^verbatim>\<open>cls.fields\<close>; a nil field is skipped.\<close>

fun values_loop :: "contentFn \<Rightarrow> field option list \<Rightarrow> gomap \<Rightarrow> gomap M" where
  "values_loop c [] vals = ret vals"
| "values_loop c (None # fs) vals = values_loop c fs vals"
| "values_loop c (Some f # fs) vals =
     (case primitiveHandlers c (f_typeName f) of
        None \<Rightarrow> throw (UnknownFieldType (f_typeName f))
      | Some handler \<Rightarrow>
          andThen (wrapErr ''error reading primitive field value'' handler) (\<lambda>v.
            values_loop c fs (mapSet vals (f_name f) v)))"

definition values_go :: "contentFn \<Rightarrow> nat \<Rightarrow> gomap M" where
  "values_go c cls = andThen (getClazz cls) (\<lambda>r. values_loop c (c_fields r) [])"

definition annotationsAsMap :: "contentFn \<Rightarrow> nat \<Rightarrow> nat \<Rightarrow> bool \<Rightarrow> gomap M" where
  "annotationsAsMap c n cls isBlock =
     andThen (if isBlock then ret []
              else wrapErr ''error reading class data field values'' (values_go c cls)) (\<lambda>data.
     andThen (wrapErr ''error reading annotations'' (annotations c n None)) (\<lambda>anns.
       let data = mapSet data ''@'' (VSlice anns)
       in if \<not> isBlock then
            andThen (getClazz cls) (\<lambda>r.
              case KnownPostProcs (c_name r @ ''@'' @ c_serialVersionUID r) of
                Some postproc \<Rightarrow> (case postproc data anns of Inl e \<Rightarrow> throw e | Inr d \<Rightarrow> ret d)
              | None \<Rightarrow> ret data)
          else ret data))"

definition classData :: "contentFn \<Rightarrow> nat \<Rightarrow> nat option \<Rightarrow> gomap M" where
  "classData c n cls =
     (case cls of
        None \<Rightarrow> throw NilClassDefinition
      | Some a \<Rightarrow>
          andThen (getClazz a) (\<lambda>r.
            let nibble = c_flags r AND 0x0f
            in if nibble = 0x02 then values_go c a
               else if nibble = 0x03 then annotationsAsMap c n a False
               else if nibble = 0x04 then throw Version1ExternalUnsupported
               else if nibble = 0x0c then annotationsAsMap c n a True
               else throw (UnknownClassFlags (c_flags r))))"

text \<open>
  \<^verbatim>\<open>recursiveClassData\<close> writes into the maps \<^verbatim>\<open>obj\<close> and \<^verbatim>\<open>seen\<close> of its caller; here
  it returns them. \<^verbatim>\<open>extends\<close> is the map stored under \<^verbatim>\<open>obj["extends"]\<close>, so the write
  \<^verbatim>\<open>extends[cls.name] = fields\<close> is a write to that entry of \<open>obj\<close>. The \<^verbatim>\<open>range\<close> over
  \<^verbatim>\<open>fields\<close> visits distinct keys, in the order of the association list here.
\<close>

fun recursiveClassData ::
  "contentFn \<Rightarrow> nat \<Rightarrow> nat \<Rightarrow> nat option \<Rightarrow> gomap \<Rightarrow> nat set \<Rightarrow> (gomap \<times> nat set) M" where
  "recursiveClassData c n 0 cls obj seen = (\<lambda>s. None)"
| "recursiveClassData c n (Suc k) cls obj seen =
     (case cls of
        None \<Rightarrow> ret (obj, seen)
      | Some a \<Rightarrow>
          andThen (getClazz a) (\<lambda>r.
          let seen = insert a seen
          in andThen (case c_super r of
                        Some superCls \<Rightarrow>
                          if superCls \<notin> seen
                          then recursiveClassData c n k (Some superCls) obj (insert superCls seen)
                          else ret (obj, seen)
                      | None \<Rightarrow> ret (obj, seen)) (\<lambda>(obj, seen).
             case mapGet obj ''extends'' of
               Some (VMap extends) \<Rightarrow>
                 andThen (wrapErr ''error reading recursive class data'' (classData c n (Some a)))
                   (\<lambda>flds.
                 andThen (getClazz a) (\<lambda>r.
                   let obj = mapSet obj ''extends'' (VMap (mapSet extends (c_name r) (VMap flds)));
                       obj = foldl (\<lambda>obj (nm, v). mapSet obj nm v) obj flds
                   in ret (obj, seen)))
             | _ \<Rightarrow> throw UnexpectedExtends)))"

definition parseObject :: "contentFn \<Rightarrow> nat \<Rightarrow> val M" where
  "parseObject c n =
     andThen (wrapErr ''error reading object class'' (classDesc c)) (\<lambda>cls.
       let objMap = [(''class'', VClazz cls), (''extends'', VMap [])]
       in andThen newDeferredHandle (\<lambda>idx.
          andThen (wrapErr ''error reading recursive class data''
                     (recursiveClassData c n n cls objMap {})) (\<lambda>(objMap, seen).
            deferredHandle idx (VMap objMap))))"

section \<open>The dispatcher and the entry point\<close>

definition knownParsers :: "contentFn \<Rightarrow> nat \<Rightarrow> string \<Rightarrow> val M option" where
  "knownParsers c n nm =
     (if nm = ''Enum'' then Some (parseEnum c)
      else if nm = ''BlockDataLong'' then Some parseBlockDataLong
      else if nm = ''BlockData'' then Some parseBlockData
      else if nm = ''EndBlockData'' then Some parseEndBlockData
      else if nm = ''ClassDesc'' then Some (parseClassDesc c n)
      else if nm = ''Class'' then Some (parseClass c)
      else if nm = ''Array'' then Some (parseArray c)
      else if nm = ''LongString'' then Some parseLongString
      else if nm = ''String'' then Some parseString
      else if nm = ''Null'' then Some parseNull
      else if nm = ''Object'' then Some (parseObject c n)
      else if nm = ''Reference'' then Some parseReference
      else None)"

text \<open>The body of \<^verbatim>\<open>content\<close>, with \<open>c\<close> for the calls of \<^verbatim>\<open>sop.content\<close> inside the parsers.\<close>

definition content_body :: "contentFn \<Rightarrow> nat \<Rightarrow> contentFn" where
  "content_body c n allowedNames =
     andThen readUInt8 (\<lambda>tc0.
       let tc = tc0 - 0x70
       in if tc > typeNameMax then throw (UnknownTag (tc + 0x70))
          else
            let nm = typeNames ! unat tc
            in if allowedNames \<noteq> None \<and> nm \<notin> set (the allowedNames) then throw (TagNotAllowedHere nm)
               else case knownParsers c n nm of
                      None \<Rightarrow> throw (Unsupported nm)
                    | Some parse \<Rightarrow> parse)"

primrec content :: "nat \<Rightarrow> contentFn" where
  "content 0 = (\<lambda>allowedNames s. None)"
| "content (Suc n) = content_body (content n) n"

text \<open>
  \<^verbatim>\<open>ParseSerializedObject\<close> returns \<^verbatim>\<open>(content, err)\<close>; on an error \<^verbatim>\<open>content\<close> holds the
  values read before it. The final parser state is returned with them: its class
  store gives the \<open>VClazz\<close> addresses of the values their meaning, and its handle
  table is what the properties of the handles below are about.
\<close>

fun parse_loop :: "nat \<Rightarrow> val list \<Rightarrow> sop \<Rightarrow> (val list \<times> error option \<times> sop) option" where
  "parse_loop 0 acc s = (if pos s < length (buf s) then None else Some (acc, None, s))"
| "parse_loop (Suc k) acc s =
     (if pos s < length (buf s) then
        (case content k None s of
           None \<Rightarrow> None
         | Some (Inl e, s') \<Rightarrow> Some (acc, Some e, s')
         | Some (Inr nxt, s') \<Rightarrow> parse_loop k (acc @ [nxt]) s')
      else Some (acc, None, s))"

definition ParseSerializedObject :: "nat \<Rightarrow> byte list \<Rightarrow> (val list \<times> error option \<times> sop) option" where
  "ParseSerializedObject n b =
     (let sop = \<lparr>buf = b, pos = 0, handles = [], clazzes = []\<rparr>
      in case magic sop of
           None \<Rightarrow> None
         | Some (Inl e, s) \<Rightarrow> Some ([], Some e, s)
         | Some (Inr _, s) \<Rightarrow>
             (case version s of
                None \<Rightarrow> None
              | Some (Inl e, s') \<Rightarrow> Some ([], Some e, s')
              | Some (Inr _, s') \<Rightarrow> parse_loop n [] s'))"

section \<open>Parsing a buffer that is continued\<close>

text \<open>
  \<open>ext e s\<close> is the parser state \<open>s\<close> over the buffer continued by the bytes \<open>e\<close>.
  \<open>sim e m1 m2\<close> relates two computations: whenever \<open>m1\<close> succeeds from a state whose
  position is inside the buffer, it leaves the position inside the buffer and the
  buffer as it was, and \<open>m2\<close> succeeds over the continued buffer with the same result
  and the same final state. With \<open>e = []\<close> and \<open>m2\<close> the same parser under a larger
  budget it says that a larger budget does not change a result.
\<close>

definition ext :: "byte list \<Rightarrow> sop \<Rightarrow> sop" where
  "ext e s = s\<lparr>buf := buf s @ e\<rparr>"

definition sim :: "byte list \<Rightarrow> 'a M \<Rightarrow> 'a M \<Rightarrow> bool" where
  "sim e m1 m2 \<longleftrightarrow>
     (\<forall>s x s'. pos s \<le> length (buf s) \<and> m1 s = Some (Inr x, s') \<longrightarrow>
        pos s' \<le> length (buf s') \<and> buf s' = buf s \<and> m2 (ext e s) = Some (Inr x, ext e s'))"

named_theorems sim_intros

section \<open>Properties of the post-processors\<close>

lemma map_of_mapSet: "map_of (mapSet m k v) = (map_of m)(k \<mapsto> v)"
  by (induction m k v rule: mapSet.induct) auto

lemma mapGet_mapSet: "mapGet (mapSet m k v) k' = (if k' = k then Some v else mapGet m k')"
  by (simp add: mapGet_def map_of_mapSet)











text \<open>
  C7. \<^verbatim>\<open>hashSetPostProc\<close> on the annotations of a HashSet of size 1 with the one member
  \<^verbatim>\<open>"a"\<close>: the element count is \<open>size + 1\<close>, and the set stored under \<^verbatim>\<open>value\<close> is empty.
  The loop runs over \<^verbatim>\<open>data[1:size]\<close>, which ends before the last member.
\<close>

theorem hashSetPostProc_misses_last:
  "hashSetPostProc [] [VBytes [0, 0, 0, 16, 63, 64, 0, 0, 0, 0, 0, 1], VString ''a''] =
     Inr [(''value'', VBoolMap [])] \<and>
   hashSetPostProc [] [VBytes [0, 0, 0, 16, 63, 64, 0, 0, 0, 0, 0, 2], VString ''a'', VString ''b''] =
     Inr [(''value'', VBoolMap [(''a'', True)])]"
  by (simp add: hashSetPostProc_def hashSetPostProc_loop_def postProcSize_def slice_def
      bigEndian_def Let_def)

text \<open>
  The same through the whole parser: the stream of a \<^verbatim>\<open>java.util.HashSet\<close> object
  (flags \<open>0x03\<close>, no fields) whose annotations are the block
  \<open>00 00 00 10 3f 40 00 00 00 00 00 01\<close> and the string \<^verbatim>\<open>"a"\<close> parses without an error
  to an object whose \<^verbatim>\<open>value\<close> is the empty set.
\<close>

lemma hashSet_stream_misses_member:
  "(case ParseSerializedObject 6
      [0xac, 0xed, 0x00, 0x05, 0x73, 0x72, 0x00, 0x11,
       0x6a, 0x61, 0x76, 0x61, 0x2e, 0x75, 0x74, 0x69, 0x6c, 0x2e, 0x48, 0x61, 0x73, 0x68, 0x53,
       0x65, 0x74,
       0xba, 0x44, 0x85, 0x95, 0x96, 0xb8, 0xb7, 0x34, 0x03, 0x00, 0x00, 0x78, 0x70,
       0x77, 0x0c, 0x00, 0x00, 0x00, 0x10, 0x3f, 0x40, 0x00, 0x00, 0x00, 0x00, 0x00, 0x01,
       0x74, 0x00, 0x01, 0x61, 0x78] of
      Some (vs, err, s) \<Rightarrow>
        (map (\<lambda>v. case v of VMap m \<Rightarrow> mapGet m ''value'' | _ \<Rightarrow> None) vs, err)
    | None \<Rightarrow> ([], None)) =
   ([Some (VBoolMap [])], None)"
  by code_simp

section \<open>Properties of the byte reader and the dispatcher\<close>

lemma step_ok:
  "pos s + cnt \<le> length (buf s) \<Longrightarrow> step cnt s = Some (Inr (pos s), s\<lparr>pos := pos s + cnt\<rparr>)"
  by (simp add: step_def Let_def)

lemma step_fail:
  "length (buf s) < pos s + cnt \<Longrightarrow> step cnt s = Some (Inl UnexpectedEnd, s\<lparr>pos := pos s + cnt\<rparr>)"
  by (simp add: step_def Let_def)

lemma bigEndian_single: "(bigEndian [b] :: 8 word) = b"
  by (simp add: bigEndian_def)

lemma slice_buf: "slice xs p (p + k) = take k (drop p xs)"
  by (simp add: slice_def)

lemma take1_drop: "p < length xs \<Longrightarrow> take (Suc 0) (drop p xs) = [xs ! p]"
  by (simp add: take_Suc_conv_app_nth)

lemma readUInt8_ok:
  "pos s < length (buf s) \<Longrightarrow> readUInt8 s = Some (Inr (buf s ! pos s), s\<lparr>pos := pos s + 1\<rparr>)"
  by (simp add: readUInt8_def andThen_def step_ok ret_def slice_def take1_drop bigEndian_single)

lemma readInt32_ok:
  "pos s + 4 \<le> length (buf s) \<Longrightarrow>
   readInt32 s = Some (Inr (bigEndian (take 4 (drop (pos s) (buf s)))), s\<lparr>pos := pos s + 4\<rparr>)"
  by (simp add: readInt32_def andThen_def step_ok ret_def slice_def)

lemma readUInt32_ok:
  "pos s + 4 \<le> length (buf s) \<Longrightarrow>
   readUInt32 s = Some (Inr (bigEndian (take 4 (drop (pos s) (buf s)))), s\<lparr>pos := pos s + 4\<rparr>)"
  by (simp add: readUInt32_def andThen_def step_ok ret_def slice_def)

lemma readString_ok:
  "pos s + cnt \<le> length (buf s) \<Longrightarrow>
   readString cnt False s =
     Some (Inr (string_of_bytes (take cnt (drop (pos s) (buf s)))), s\<lparr>pos := pos s + cnt\<rparr>)"
  by (simp add: readString_def andThen_def wrapErr_def step_ok ret_def slice_def)

lemma content_Suc:
  "pos s < length (buf s) \<Longrightarrow>
   content (Suc n) allowedNames s =
     (let tc = buf s ! pos s - 0x70; s1 = s\<lparr>pos := pos s + 1\<rparr>
      in if tc > typeNameMax then Some (Inl (UnknownTag (buf s ! pos s)), s1)
         else
           let nm = typeNames ! unat tc
           in if allowedNames \<noteq> None \<and> nm \<notin> set (the allowedNames)
              then Some (Inl (TagNotAllowedHere nm), s1)
              else case knownParsers (content n) n nm of
                     None \<Rightarrow> Some (Inl (Unsupported nm), s1)
                   | Some parse \<Rightarrow> parse s1)"
  by (simp add: content_body_def andThen_def readUInt8_ok Let_def throw_def split: option.splits)

lemma typeNameMax_14: "typeNameMax = 14"
  by (simp add: typeNameMax_def typeNames_def)

lemma parseReference_ok:
  assumes "pos s + 4 \<le> length (buf s)"
  shows "parseReference s =
     (let i = sint ((bigEndian (take 4 (drop (pos s) (buf s))) :: 32 word) - 0x7e0000)
      in Some (Inr (if 0 \<le> i \<and> i < int (length (handles s)) then handles s ! nat i else VNil),
               s\<lparr>pos := pos s + 4\<rparr>))"
  using assms
  by (simp add: parseReference_def andThen_def wrapErr_def readInt32_ok ret_def Let_def)

lemma content_tag_Reference:
  assumes "pos s < length (buf s)" and "buf s ! pos s = 0x71"
    and "allowedNames = None \<or> ''Reference'' \<in> set (the allowedNames)"
  shows "content (Suc n) allowedNames s = parseReference (s\<lparr>pos := pos s + 1\<rparr>)"
  using assms
  by (auto simp add: content_Suc typeNameMax_14 typeNames_def knownParsers_def Let_def
      simp del: content.simps)

text \<open>
  C1. A Reference tag (\<open>0x71\<close>) followed by four bytes: the parser reads them as the
  int32 \<open>w\<close>, computes \<open>i = w - 0x7e0000\<close> (Go's int32 subtraction) and returns the
  entry \<open>i\<close> of the handle table when \<open>0 \<le> i < length handles\<close>, and nil otherwise.
  In both cases there is no error, the tag and the four bytes are consumed and the
  handle table and class store are unchanged.
\<close>

theorem content_Reference:
  assumes "pos s + 5 \<le> length (buf s)" and "buf s ! pos s = 0x71"
    and "allowedNames = None \<or> ''Reference'' \<in> set (the allowedNames)"
  shows "let w = bigEndian (take 4 (drop (pos s + 1) (buf s))) :: 32 word;
             i = sint (w - 0x7e0000)
         in content (Suc n) allowedNames s =
              Some (Inr (if 0 \<le> i \<and> i < int (length (handles s)) then handles s ! nat i else VNil),
                    s\<lparr>pos := pos s + 5\<rparr>)"
  using assms
  by (simp add: content_tag_Reference parseReference_ok Let_def del: content.simps)

text \<open>
  The int32 subtraction is the subtraction of integers unless it leaves the range of
  int32, that is unless the wire id is below \<open>- 2^31 + 0x7e0000\<close>.
\<close>

lemma refIdx_no_wrap:
  fixes w :: "32 word"
  assumes "- (2 ^ 31) + 0x7e0000 \<le> sint w"
  shows "sint (w - 0x7e0000) = sint w - 0x7e0000"
proof -
  have "sint w < 2 ^ 31" using sint_lt [of w] by simp
  with assms show ?thesis
    by (simp add: sint_word_ariths signed_take_bit_int_eq_self)
qed

theorem content_Reference_witness:
  "pos \<lparr>buf = [0x71, 0x00, 0x7e, 0x00, 0x01], pos = 0, handles = [VString ''a'', VString ''b''],
       clazzes = []\<rparr> + 5
     \<le> length (buf \<lparr>buf = [0x71, 0x00, 0x7e, 0x00, 0x01], pos = 0,
                    handles = [VString ''a'', VString ''b''], clazzes = []\<rparr>) \<and>
   content (Suc 0) None
     \<lparr>buf = [0x71, 0x00, 0x7e, 0x00, 0x01], pos = 0, handles = [VString ''a'', VString ''b''],
        clazzes = []\<rparr> =
     Some (Inr (VString ''b''),
       \<lparr>buf = [0x71, 0x00, 0x7e, 0x00, 0x01], pos = 5, handles = [VString ''a'', VString ''b''],
          clazzes = []\<rparr>) \<and>
   content (Suc 0) None
     \<lparr>buf = [0x71, 0x00, 0x7e, 0x00, 0x02], pos = 0, handles = [VString ''a'', VString ''b''],
        clazzes = []\<rparr> =
     Some (Inr VNil,
       \<lparr>buf = [0x71, 0x00, 0x7e, 0x00, 0x02], pos = 5, handles = [VString ''a'', VString ''b''],
          clazzes = []\<rparr>)"
  using content_Reference [of "\<lparr>buf = [0x71, 0x00, 0x7e, 0x00, 0x01], pos = 0,
        handles = [VString ''a'', VString ''b''], clazzes = []\<rparr>" None 0]
    content_Reference [of "\<lparr>buf = [0x71, 0x00, 0x7e, 0x00, 0x02], pos = 0,
        handles = [VString ''a'', VString ''b''], clazzes = []\<rparr>" None 0]
  by (simp add: bigEndian_def Let_def del: content.simps)

lemma utfLong_too_long:
  "pos s + 4 \<le> length (buf s) \<Longrightarrow>
   (bigEndian (take 4 (drop (pos s) (buf s))) :: 32 word) \<noteq> 0 \<Longrightarrow>
   utfLong s = Some (Inl StringTooLong, s\<lparr>pos := pos s + 4\<rparr>)"
  by (simp add: utfLong_def andThen_def wrapErr_def readUInt32_ok throw_def)

lemma utfLong_ok:
  "pos s + 8 \<le> length (buf s) \<Longrightarrow>
   (bigEndian (take 4 (drop (pos s) (buf s))) :: 32 word) = 0 \<Longrightarrow>
   pos s + 8 + unat (bigEndian (take 4 (drop (pos s + 4) (buf s))) :: 32 word) \<le> length (buf s) \<Longrightarrow>
   utfLong s =
     Some (Inr (string_of_bytes
                  (take (unat (bigEndian (take 4 (drop (pos s + 4) (buf s))) :: 32 word))
                     (drop (pos s + 8) (buf s)))),
           s\<lparr>pos := pos s + 8 + unat (bigEndian (take 4 (drop (pos s + 4) (buf s))) :: 32 word)\<rparr>)"
  by (simp add: utfLong_def andThen_def wrapErr_def readUInt32_ok readString_ok throw_def
      add.commute add.left_commute)

text \<open>
  C8. A LongString tag (\<open>0x7c\<close>): the length is read as two 32-bit halves. When the
  upper half is not zero the parser fails with \<open>StringTooLong\<close> having consumed the tag
  and the upper half only, and registers nothing. When it is zero and the bytes are
  there, the parser reads exactly \<open>lower\<close> bytes after the two halves as the string,
  appends the string to the handle table and returns it.
\<close>

theorem content_LongString:
  assumes "pos s + 5 \<le> length (buf s)" and "buf s ! pos s = 0x7c"
    and "allowedNames = None \<or> ''LongString'' \<in> set (the allowedNames)"
  shows "let upper = bigEndian (take 4 (drop (pos s + 1) (buf s))) :: 32 word;
             lower = bigEndian (take 4 (drop (pos s + 5) (buf s))) :: 32 word;
             str = string_of_bytes (take (unat lower) (drop (pos s + 9) (buf s)))
         in (upper \<noteq> 0 \<longrightarrow>
               content (Suc n) allowedNames s =
                 Some (Inl (Wrapped ''error parsing long string'' StringTooLong),
                       s\<lparr>pos := pos s + 5\<rparr>)) \<and>
            (upper = 0 \<and> pos s + 9 + unat lower \<le> length (buf s) \<longrightarrow>
               content (Suc n) allowedNames s =
                 Some (Inr (VString str),
                       s\<lparr>pos := pos s + 9 + unat lower, handles := handles s @ [VString str]\<rparr>))"
proof -
  let ?s1 = "s\<lparr>pos := pos s + 1\<rparr>"
  have lt: "pos s < length (buf s)" using assms(1) by simp
  have c: "content (Suc n) allowedNames s = parseLongString ?s1"
    using assms(2,3)
    by (auto simp add: content_Suc [OF lt] typeNameMax_14 typeNames_def knownParsers_def Let_def
        simp del: content.simps)
  have a: "parseLongString ?s1 =
      Some (Inl (Wrapped ''error parsing long string'' StringTooLong), s\<lparr>pos := pos s + 5\<rparr>)"
    if "(bigEndian (take 4 (drop (pos s + 1) (buf s))) :: 32 word) \<noteq> 0"
    using that assms(1) utfLong_too_long [of ?s1]
    by (simp add: parseLongString_def andThen_def wrapErr_def)
  have b: "parseLongString ?s1 =
      Some (Inr (VString (string_of_bytes
                    (take (unat (bigEndian (take 4 (drop (pos s + 5) (buf s))) :: 32 word))
                       (drop (pos s + 9) (buf s))))),
            s\<lparr>pos := pos s + 9 + unat (bigEndian (take 4 (drop (pos s + 5) (buf s))) :: 32 word),
               handles := handles s @ [VString (string_of_bytes
                    (take (unat (bigEndian (take 4 (drop (pos s + 5) (buf s))) :: 32 word))
                       (drop (pos s + 9) (buf s))))]\<rparr>)"
    if "(bigEndian (take 4 (drop (pos s + 1) (buf s))) :: 32 word) = 0"
      and "pos s + 9 + unat (bigEndian (take 4 (drop (pos s + 5) (buf s))) :: 32 word)
             \<le> length (buf s)"
    using that utfLong_ok [of ?s1]
    by (simp add: parseLongString_def andThen_def wrapErr_def newHandle_def add.commute
        add.left_commute)
  show ?thesis
    unfolding Let_def c using a b by blast
qed

theorem content_LongString_witness:
  "pos \<lparr>buf = [0x7c, 0, 0, 0, 0, 0, 0, 0, 2, 0x68, 0x69], pos = 0, handles = [], clazzes = []\<rparr> + 5
     \<le> length (buf \<lparr>buf = [0x7c, 0, 0, 0, 0, 0, 0, 0, 2, 0x68, 0x69], pos = 0, handles = [],
                    clazzes = []\<rparr>) \<and>
   content (Suc 0) None
     \<lparr>buf = [0x7c, 0, 0, 0, 0, 0, 0, 0, 2, 0x68, 0x69], pos = 0, handles = [], clazzes = []\<rparr> =
     Some (Inr (VString ''hi''),
       \<lparr>buf = [0x7c, 0, 0, 0, 0, 0, 0, 0, 2, 0x68, 0x69], pos = 11, handles = [VString ''hi''],
          clazzes = []\<rparr>) \<and>
   content (Suc 0) None
     \<lparr>buf = [0x7c, 0x70, 0, 0, 0, 0, 0, 0, 0, 0x68, 0x69], pos = 0, handles = [], clazzes = []\<rparr> =
     Some (Inl (Wrapped ''error parsing long string'' StringTooLong),
       \<lparr>buf = [0x7c, 0x70, 0, 0, 0, 0, 0, 0, 0, 0x68, 0x69], pos = 5, handles = [], clazzes = []\<rparr>)"
  using content_LongString [of "\<lparr>buf = [0x7c, 0, 0, 0, 0, 0, 0, 0, 2, 0x68, 0x69], pos = 0,
        handles = [], clazzes = []\<rparr>" None 0]
    content_LongString [of "\<lparr>buf = [0x7c, 0x70, 0, 0, 0, 0, 0, 0, 0, 0x68, 0x69], pos = 0,
        handles = [], clazzes = []\<rparr>" None 0]
  by (simp add: bigEndian_def Let_def string_of_bytes_def byte_char_def del: content.simps)

lemma content_Null:
  "pos s < length (buf s) \<Longrightarrow> buf s ! pos s = 0x70 \<Longrightarrow>
   allowedNames = None \<or> ''Null'' \<in> set (the allowedNames) \<Longrightarrow>
   content (Suc n) allowedNames s = Some (Inr VNil, s\<lparr>pos := pos s + 1\<rparr>)"
  by (auto simp add: content_Suc typeNameMax_14 typeNames_def knownParsers_def Let_def
      parseNull_def ret_def simp del: content.simps)

lemma classDesc_Null:
  "pos s < length (buf s) \<Longrightarrow> buf s ! pos s = 0x70 \<Longrightarrow>
   classDesc (content (Suc n)) s = Some (Inr None, s\<lparr>pos := pos s + 1\<rparr>)"
  by (simp add: classDesc_def andThen_def wrapErr_def content_Null allowedClazzNames_def ret_def
      del: content.simps)

lemma classDesc_Reference:
  assumes "pos s + 5 \<le> length (buf s)" and "buf s ! pos s = 0x71"
  shows "classDesc (content (Suc n)) s =
     (let i = sint ((bigEndian (take 4 (drop (pos s + 1) (buf s))) :: 32 word) - 0x7e0000);
          r = (if 0 \<le> i \<and> i < int (length (handles s)) then handles s ! nat i else VNil)
      in case r of
           VNil \<Rightarrow> Some (Inr None, s\<lparr>pos := pos s + 5\<rparr>)
         | VClazz cls \<Rightarrow> Some (Inr cls, s\<lparr>pos := pos s + 5\<rparr>)
         | _ \<Rightarrow> Some (Inl UnexpectedClassDescType, s\<lparr>pos := pos s + 5\<rparr>))"
proof -
  have "content (Suc n) (Some allowedClazzNames) s =
      Some (Inr (let i = sint ((bigEndian (take 4 (drop (pos s + 1) (buf s))) :: 32 word) - 0x7e0000)
                 in if 0 \<le> i \<and> i < int (length (handles s)) then handles s ! nat i else VNil),
            s\<lparr>pos := pos s + 5\<rparr>)"
    using assms
    by (simp add: content_tag_Reference parseReference_ok allowedClazzNames_def Let_def
        del: content.simps)
  then show ?thesis
    by (simp add: classDesc_def andThen_def wrapErr_def Let_def ret_def throw_def
        del: content.simps split: val.splits)
qed

text \<open>
  \<^verbatim>\<open>parseArray\<close> once \<^verbatim>\<open>classDesc\<close> has returned the nil class: the map \<^verbatim>\<open>{class: nil}\<close> is
  appended to the handle table, the four bytes of the length are read into it, and the
  result is nil.
\<close>

lemma parseArray_nil_class:
  assumes "classDesc c s = Some (Inr None, s1)" and "pos s1 + 4 \<le> length (buf s1)"
  shows "parseArray c s =
     Some (Inr VNil,
       s1\<lparr>pos := pos s1 + 4,
           handles := handles s1 @
             [VMap [(''class'', VClazz None),
                    (''length'', VInt32 (bigEndian (take 4 (drop (pos s1) (buf s1)))))]]\<rparr>)"
  using assms
  by (simp add: parseArray_def andThen_def wrapErr_def ret_def newHandle_def readInt32_ok
      deferredHandle_def)

text \<open>
  C9. An Array tag (\<open>0x75\<close>) whose class descriptor is the Null tag (\<open>0x70\<close>), or a
  Reference tag (\<open>0x71\<close>) that resolves to nil or to a nil class pointer: the parser
  appends the record \<^verbatim>\<open>{class: nil, length: n}\<close> to the handle table, \<open>n\<close> being the four
  bytes after the descriptor, and returns nil without an error; it consumes the tag, the
  descriptor and the four bytes of the length, and no byte of an element.
\<close>

theorem content_Array_nil_class:
  assumes "buf s ! pos s = 0x75"
    and "allowedNames = None \<or> ''Array'' \<in> set (the allowedNames)"
  shows
    "(pos s + 6 \<le> length (buf s) \<and> buf s ! (pos s + 1) = 0x70 \<longrightarrow>
        content (Suc (Suc n)) allowedNames s =
          Some (Inr VNil,
            s\<lparr>pos := pos s + 6,
               handles := handles s @
                 [VMap [(''class'', VClazz None),
                        (''length'', VInt32 (bigEndian (take 4 (drop (pos s + 2) (buf s)))))]]\<rparr>)) \<and>
     (pos s + 10 \<le> length (buf s) \<and> buf s ! (pos s + 1) = 0x71 \<and>
      (let i = sint ((bigEndian (take 4 (drop (pos s + 2) (buf s))) :: 32 word) - 0x7e0000);
           r = (if 0 \<le> i \<and> i < int (length (handles s)) then handles s ! nat i else VNil)
       in r = VNil \<or> r = VClazz None) \<longrightarrow>
        content (Suc (Suc n)) allowedNames s =
          Some (Inr VNil,
            s\<lparr>pos := pos s + 10,
               handles := handles s @
                 [VMap [(''class'', VClazz None),
                        (''length'', VInt32 (bigEndian (take 4 (drop (pos s + 6) (buf s)))))]]\<rparr>))"
proof (intro conjI impI)
  let ?s1 = "s\<lparr>pos := pos s + 1\<rparr>"
  assume h: "pos s + 6 \<le> length (buf s) \<and> buf s ! (pos s + 1) = 0x70"
  then have lt: "pos s < length (buf s)" by simp
  have c: "content (Suc (Suc n)) allowedNames s = parseArray (content (Suc n)) ?s1"
    using assms
    by (auto simp add: content_Suc [OF lt] typeNameMax_14 typeNames_def knownParsers_def Let_def
        simp del: content.simps)
  have d: "classDesc (content (Suc n)) ?s1 = Some (Inr None, ?s1\<lparr>pos := pos ?s1 + 1\<rparr>)"
    using h by (intro classDesc_Null) simp_all
  show "content (Suc (Suc n)) allowedNames s =
          Some (Inr VNil,
            s\<lparr>pos := pos s + 6,
               handles := handles s @
                 [VMap [(''class'', VClazz None),
                        (''length'', VInt32 (bigEndian (take 4 (drop (pos s + 2) (buf s)))))]]\<rparr>)"
    unfolding c using parseArray_nil_class [OF d] h by (simp add: add.commute)
next
  let ?s1 = "s\<lparr>pos := pos s + 1\<rparr>"
  assume h: "pos s + 10 \<le> length (buf s) \<and> buf s ! (pos s + 1) = 0x71 \<and>
      (let i = sint ((bigEndian (take 4 (drop (pos s + 2) (buf s))) :: 32 word) - 0x7e0000);
           r = (if 0 \<le> i \<and> i < int (length (handles s)) then handles s ! nat i else VNil)
       in r = VNil \<or> r = VClazz None)"
  then have lt: "pos s < length (buf s)" by simp
  have c: "content (Suc (Suc n)) allowedNames s = parseArray (content (Suc n)) ?s1"
    using assms
    by (auto simp add: content_Suc [OF lt] typeNameMax_14 typeNames_def knownParsers_def Let_def
        simp del: content.simps)
  have p: "pos ?s1 + 5 \<le> length (buf ?s1)" "buf ?s1 ! pos ?s1 = 0x71"
    using h by simp_all
  have d: "classDesc (content (Suc n)) ?s1 = Some (Inr None, ?s1\<lparr>pos := pos ?s1 + 5\<rparr>)"
    using h unfolding classDesc_Reference [OF p]
    by (auto simp add: Let_def)
  show "content (Suc (Suc n)) allowedNames s =
          Some (Inr VNil,
            s\<lparr>pos := pos s + 10,
               handles := handles s @
                 [VMap [(''class'', VClazz None),
                        (''length'', VInt32 (bigEndian (take 4 (drop (pos s + 6) (buf s)))))]]\<rparr>)"
    unfolding c using parseArray_nil_class [OF d] h by (simp add: add.commute)
qed

theorem content_Array_nil_class_witness:
  "buf \<lparr>buf = [0x75, 0x70, 0, 0, 0, 3, 0x74], pos = 0, handles = [], clazzes = []\<rparr> !
     pos \<lparr>buf = [0x75, 0x70, 0, 0, 0, 3, 0x74], pos = 0, handles = [], clazzes = []\<rparr> = 0x75 \<and>
   content (Suc (Suc 0)) None
     \<lparr>buf = [0x75, 0x70, 0, 0, 0, 3, 0x74], pos = 0, handles = [], clazzes = []\<rparr> =
     Some (Inr VNil,
       \<lparr>buf = [0x75, 0x70, 0, 0, 0, 3, 0x74], pos = 6,
          handles = [VMap [(''class'', VClazz None), (''length'', VInt32 3)]], clazzes = []\<rparr>) \<and>
   content (Suc (Suc 0)) None
     \<lparr>buf = [0x75, 0x71, 0, 0x7e, 0, 7, 0, 0, 0, 3, 0x74], pos = 0, handles = [VString ''a''],
        clazzes = []\<rparr> =
     Some (Inr VNil,
       \<lparr>buf = [0x75, 0x71, 0, 0x7e, 0, 7, 0, 0, 0, 3, 0x74], pos = 10,
          handles = [VString ''a'', VMap [(''class'', VClazz None), (''length'', VInt32 3)]],
          clazzes = []\<rparr>)"
  using content_Array_nil_class [of "\<lparr>buf = [0x75, 0x70, 0, 0, 0, 3, 0x74], pos = 0,
        handles = [], clazzes = []\<rparr>" None 0]
    content_Array_nil_class [of "\<lparr>buf = [0x75, 0x71, 0, 0x7e, 0, 7, 0, 0, 0, 3, 0x74], pos = 0,
        handles = [VString ''a''], clazzes = []\<rparr>" None 0]
  by (simp add: bigEndian_def Let_def del: content.simps)

section \<open>Properties of the class-data reader\<close>

text \<open>
  C5. \<^verbatim>\<open>classData\<close> on a class descriptor is decided by the low nibble of its flags:
  \<open>0x02\<close> is \<^verbatim>\<open>values\<close> and nothing else; \<open>0x03\<close> reads the field values, then the
  annotations, stores the annotations under \<^verbatim>\<open>@\<close> and returns what the post-processor
  registered for \<^verbatim>\<open>name@serialVersionUID\<close> makes of the record (the record itself when
  none is registered); \<open>0x04\<close> is the error \<open>Version1ExternalUnsupported\<close>; \<open>0x0c\<close> reads
  no field value, reads the annotations and returns the record that holds them under
  \<^verbatim>\<open>@\<close> and nothing else, whatever the signature of the class; every other nibble is
  the error \<open>UnknownClassFlags\<close>. \<open>c\<close> is the function that stands for \<^verbatim>\<open>sop.content\<close>.
\<close>

theorem classData_dispatch:
  "let r = clazzes s ! a; nibble = c_flags r AND 0x0f in
     (nibble = 0x02 \<longrightarrow> classData c n (Some a) s = values_go c a s) \<and>
     (nibble = 0x03 \<longrightarrow>
        (\<forall>data s1 anns s2.
           values_go c a s = Some (Inr data, s1) \<and> annotations c n None s1 = Some (Inr anns, s2) \<longrightarrow>
           classData c n (Some a) s =
             Some (case KnownPostProcs (c_name (clazzes s2 ! a) @ ''@'' @
                                        c_serialVersionUID (clazzes s2 ! a)) of
                     None \<Rightarrow> Inr (mapSet data ''@'' (VSlice anns))
                   | Some postproc \<Rightarrow> postproc (mapSet data ''@'' (VSlice anns)) anns,
                   s2))) \<and>
     (nibble = 0x04 \<longrightarrow> classData c n (Some a) s = Some (Inl Version1ExternalUnsupported, s)) \<and>
     (nibble = 0x0c \<longrightarrow>
        (\<forall>anns s1.
           annotations c n None s = Some (Inr anns, s1) \<longrightarrow>
           classData c n (Some a) s = Some (Inr [(''@'', VSlice anns)], s1))) \<and>
     (nibble \<notin> {0x02, 0x03, 0x04, 0x0c} \<longrightarrow>
        classData c n (Some a) s = Some (Inl (UnknownClassFlags (c_flags r)), s))"
  by (auto simp add: classData_def annotationsAsMap_def andThen_def wrapErr_def getClazz_def
      ret_def throw_def Let_def split: option.splits sum.splits)

text \<open>
  The five cases at small inputs: a class with one byte field; an ArrayList with an
  empty size block; flags \<open>0x04\<close>; a class with the signature of HashSet and flags
  \<open>0x0c\<close>, whose annotations are empty (the post-processor of HashSet would refuse
  them); flags \<open>0x00\<close>.
\<close>

theorem classData_dispatch_witness:
  "classData (content 1) 2 (Some 0)
     \<lparr>buf = [0x05], pos = 0, handles = [],
        clazzes = [new_clazz\<lparr>c_name := ''Aa'', c_flags := 0x02,
          c_fields := [Some \<lparr>f_className = [], f_typeName = ''B'', f_name = ''x''\<rparr>]\<rparr>]\<rparr> =
     Some (Inr [(''x'', VInt8 5)],
       \<lparr>buf = [0x05], pos = 1, handles = [],
          clazzes = [new_clazz\<lparr>c_name := ''Aa'', c_flags := 0x02,
            c_fields := [Some \<lparr>f_className = [], f_typeName = ''B'', f_name = ''x''\<rparr>]\<rparr>]\<rparr>) \<and>
   classData (content 1) 2 (Some 0)
     \<lparr>buf = [0x77, 0x04, 0, 0, 0, 0, 0x78], pos = 0, handles = [],
        clazzes = [new_clazz\<lparr>c_name := ''java.util.ArrayList'',
          c_serialVersionUID := ''7881d21d99c7619d'', c_flags := 0x03\<rparr>]\<rparr> =
     Some (Inr [(''@'', VSlice [VBytes [0, 0, 0, 0]]), (''value'', VSlice [])],
       \<lparr>buf = [0x77, 0x04, 0, 0, 0, 0, 0x78], pos = 7, handles = [],
          clazzes = [new_clazz\<lparr>c_name := ''java.util.ArrayList'',
            c_serialVersionUID := ''7881d21d99c7619d'', c_flags := 0x03\<rparr>]\<rparr>) \<and>
   classData (content 1) 2 (Some 0)
     \<lparr>buf = [0x78], pos = 0, handles = [],
        clazzes = [new_clazz\<lparr>c_name := ''Aa'', c_flags := 0x04\<rparr>]\<rparr> =
     Some (Inl Version1ExternalUnsupported,
       \<lparr>buf = [0x78], pos = 0, handles = [],
          clazzes = [new_clazz\<lparr>c_name := ''Aa'', c_flags := 0x04\<rparr>]\<rparr>) \<and>
   classData (content 1) 2 (Some 0)
     \<lparr>buf = [0x78], pos = 0, handles = [],
        clazzes = [new_clazz\<lparr>c_name := ''java.util.HashSet'',
          c_serialVersionUID := ''ba44859596b8b734'', c_flags := 0x0c\<rparr>]\<rparr> =
     Some (Inr [(''@'', VSlice [])],
       \<lparr>buf = [0x78], pos = 1, handles = [],
          clazzes = [new_clazz\<lparr>c_name := ''java.util.HashSet'',
            c_serialVersionUID := ''ba44859596b8b734'', c_flags := 0x0c\<rparr>]\<rparr>) \<and>
   classData (content 1) 2 (Some 0)
     \<lparr>buf = [0x78], pos = 0, handles = [],
        clazzes = [new_clazz\<lparr>c_name := ''Aa'', c_flags := 0x00\<rparr>]\<rparr> =
     Some (Inl (UnknownClassFlags 0),
       \<lparr>buf = [0x78], pos = 0, handles = [],
          clazzes = [new_clazz\<lparr>c_name := ''Aa'', c_flags := 0x00\<rparr>]\<rparr>)"
proof -
  let ?s2 = "\<lparr>buf = [0x05], pos = 0, handles = [],
        clazzes = [new_clazz\<lparr>c_name := ''Aa'', c_flags := 0x02,
          c_fields := [Some \<lparr>f_className = [], f_typeName = ''B'', f_name = ''x''\<rparr>]\<rparr>]\<rparr>"
  let ?s3 = "\<lparr>buf = [0x77, 0x04, 0, 0, 0, 0, 0x78], pos = 0, handles = [],
        clazzes = [new_clazz\<lparr>c_name := ''java.util.ArrayList'',
          c_serialVersionUID := ''7881d21d99c7619d'', c_flags := 0x03\<rparr>]\<rparr>"
  let ?s4 = "\<lparr>buf = [0x78], pos = 0, handles = [],
        clazzes = [new_clazz\<lparr>c_name := ''Aa'', c_flags := 0x04\<rparr>]\<rparr>"
  let ?sc = "\<lparr>buf = [0x78], pos = 0, handles = [],
        clazzes = [new_clazz\<lparr>c_name := ''java.util.HashSet'',
          c_serialVersionUID := ''ba44859596b8b734'', c_flags := 0x0c\<rparr>]\<rparr>"
  let ?s0 = "\<lparr>buf = [0x78], pos = 0, handles = [],
        clazzes = [new_clazz\<lparr>c_name := ''Aa'', c_flags := 0x00\<rparr>]\<rparr>"
  have v2: "values_go (content 1) 0 ?s2 = Some (Inr [(''x'', VInt8 5)], ?s2\<lparr>pos := 1\<rparr>)"
    by code_simp
  have v3: "values_go (content 1) 0 ?s3 = Some (Inr [], ?s3)"
    by code_simp
  have a3: "annotations (content 1) 2 None ?s3 = Some (Inr [VBytes [0, 0, 0, 0]], ?s3\<lparr>pos := 7\<rparr>)"
    by code_simp
  have p3: "KnownPostProcs (''java.util.ArrayList'' @ ''@'' @ ''7881d21d99c7619d'') = Some listPostProc"
    by (simp add: KnownPostProcs_def)
  have l3: "listPostProc (mapSet [] ''@'' (VSlice [VBytes [0, 0, 0, 0]])) [VBytes [0, 0, 0, 0]] =
      Inr [(''@'', VSlice [VBytes [0, 0, 0, 0]]), (''value'', VSlice [])]"
    by code_simp
  have ac: "annotations (content 1) 2 None ?sc = Some (Inr [], ?sc\<lparr>pos := 1\<rparr>)"
    by code_simp
  have c2: "classData (content 1) 2 (Some 0) ?s2 = Some (Inr [(''x'', VInt8 5)], ?s2\<lparr>pos := 1\<rparr>)"
    using classData_dispatch [of ?s2 0 "content 1" 2] v2
    by (simp add: Let_def new_clazz_def del: content.simps One_nat_def)
  have c3: "classData (content 1) 2 (Some 0) ?s3 =
      Some (Inr [(''@'', VSlice [VBytes [0, 0, 0, 0]]), (''value'', VSlice [])], ?s3\<lparr>pos := 7\<rparr>)"
    using classData_dispatch [of ?s3 0 "content 1" 2] v3 a3 p3 l3
    by (simp add: Let_def new_clazz_def del: content.simps One_nat_def)
  have c4: "classData (content 1) 2 (Some 0) ?s4 = Some (Inl Version1ExternalUnsupported, ?s4)"
    using classData_dispatch [of ?s4 0 "content 1" 2]
    by (simp add: Let_def new_clazz_def del: content.simps One_nat_def)
  have cc: "classData (content 1) 2 (Some 0) ?sc = Some (Inr [(''@'', VSlice [])], ?sc\<lparr>pos := 1\<rparr>)"
    using classData_dispatch [of ?sc 0 "content 1" 2] ac
    by (simp add: Let_def new_clazz_def del: content.simps One_nat_def)
  have c0: "classData (content 1) 2 (Some 0) ?s0 = Some (Inl (UnknownClassFlags 0), ?s0)"
    using classData_dispatch [of ?s0 0 "content 1" 2]
    by (simp add: Let_def new_clazz_def del: content.simps One_nat_def)
  show ?thesis
    using c2 c3 c4 cc c0 by (simp del: content.simps One_nat_def)
qed

section \<open>The class name check\<close>

text \<open>
  A ClassDesc tag (\<open>0x72\<close>) whose name has fewer than two bytes: \<^verbatim>\<open>parseClassDesc\<close>
  returns nil and no error, and the handle table is as it was.
\<close>

lemma parseClassDesc_short_name:
  assumes "utf s0 = Some (Inr nm, s1)" and "length nm < 2"
    and "s0 = s\<lparr>clazzes := clazzes s @ [new_clazz]\<rparr>"
  shows "\<exists>s'. parseClassDesc c n s = Some (Inr VNil, s') \<and> handles s' = handles s1 \<and> pos s' = pos s1"
  using assms
  by (simp add: parseClassDesc_def andThen_def allocClazz_def wrapErr_def setClazz_def ret_def)

text \<open>
  C2. The stream \<open>ac ed 00 05 72 00 01 41\<close> is the header and a new ClassDesc whose name
  is the one byte \<^verbatim>\<open>A\<close>. \<^verbatim>\<open>ParseSerializedObject\<close> returns the one value nil and no
  error.
\<close>

theorem short_class_name_accepted:
  "ParseSerializedObject 2 [0xac, 0xed, 0x00, 0x05, 0x72, 0x00, 0x01, 0x41] =
     Some ([VNil], None,
       \<lparr>buf = [0xac, 0xed, 0x00, 0x05, 0x72, 0x00, 0x01, 0x41], pos = 8, handles = [],
          clazzes = [new_clazz\<lparr>c_name := ''A''\<rparr>]\<rparr>)"
  by code_simp

text \<open>
  C4. The stream \<open>ac ed 00 05 76 72 00 00\<close> is the header, a Class tag and, as its
  descriptor, a new ClassDesc with the empty name. The parse succeeds; the two tags
  are both of the kind that registers a handle, and the handle table ends with one
  entry, the one of the Class tag.
\<close>

theorem short_class_name_no_handle:
  "ParseSerializedObject 3 [0xac, 0xed, 0x00, 0x05, 0x76, 0x72, 0x00, 0x00] =
     Some ([VClazz None], None,
       \<lparr>buf = [0xac, 0xed, 0x00, 0x05, 0x76, 0x72, 0x00, 0x00], pos = 8, handles = [VClazz None],
          clazzes = [new_clazz]\<rparr>)"
  by code_simp

section \<open>A successful parse is a parse of every continuation\<close>

text \<open>
  The rules below carry \<open>sim\<close> through every reader and parser: a read that succeeds
  sees the same bytes when the buffer is continued, and the handle table and the class
  store do not depend on the buffer.
\<close>

lemma simI:
  assumes "\<And>s x s'. pos s \<le> length (buf s) \<Longrightarrow> m1 s = Some (Inr x, s') \<Longrightarrow>
     pos s' \<le> length (buf s') \<and> buf s' = buf s \<and> m2 (ext e s) = Some (Inr x, ext e s')"
  shows "sim e m1 m2"
  unfolding sim_def using assms by blast

lemma simD:
  assumes "sim e m1 m2" and "pos s \<le> length (buf s)" and "m1 s = Some (Inr x, s')"
  shows "pos s' \<le> length (buf s')" and "buf s' = buf s" and "m2 (ext e s) = Some (Inr x, ext e s')"
  using assms unfolding sim_def by blast+

lemma ext_simps [simp]:
  "pos (ext e s) = pos s" "handles (ext e s) = handles s" "clazzes (ext e s) = clazzes s"
  "buf (ext e s) = buf s @ e"
  by (simp_all add: ext_def)

lemma sim_ret [sim_intros]: "sim e (ret x) (ret x)"
  by (simp add: sim_def ret_def)

lemma sim_throw [sim_intros]: "sim e (throw er) m"
  by (simp add: sim_def throw_def)

lemma sim_none [sim_intros]: "sim e (\<lambda>s. None) m"
  by (simp add: sim_def)

lemma andThen_Inr:
  "andThen m f s = Some (Inr x, s') \<longleftrightarrow> (\<exists>y s1. m s = Some (Inr y, s1) \<and> f y s1 = Some (Inr x, s'))"
proof (cases "m s")
  case None
  then show ?thesis by (simp add: andThen_def)
next
  case (Some r)
  obtain v s1 where r: "r = (v, s1)" by (cases r)
  show ?thesis
  proof (cases v)
    case (Inl er)
    with Some r show ?thesis by (simp add: andThen_def)
  next
    case (Inr y)
    with Some r show ?thesis by (simp add: andThen_def)
  qed
qed

lemma wrapErr_Inr:
  "wrapErr msg m s = Some (Inr x, s') \<longleftrightarrow> m s = Some (Inr x, s')"
proof (cases "m s")
  case None
  then show ?thesis by (simp add: wrapErr_def)
next
  case (Some r)
  obtain v s1 where r: "r = (v, s1)" by (cases r)
  show ?thesis
  proof (cases v)
    case (Inl er)
    with Some r show ?thesis by (simp add: wrapErr_def)
  next
    case (Inr y)
    with Some r show ?thesis by (simp add: wrapErr_def)
  qed
qed


lemma sim_andThen [sim_intros]:
  assumes "sim e m1 m2" and "\<And>x. sim e (f1 x) (f2 x)"
  shows "sim e (andThen m1 f1) (andThen m2 f2)"
proof (rule simI)
  fix s x s'
  assume inv: "pos s \<le> length (buf s)" and run: "andThen m1 f1 s = Some (Inr x, s')"
  from run obtain y s1 where m: "m1 s = Some (Inr y, s1)" and f: "f1 y s1 = Some (Inr x, s')"
    unfolding andThen_Inr by blast
  note a = simD [OF assms(1) inv m]
  note b = simD [OF assms(2) a(1) f]
  have "andThen m2 f2 (ext e s) = Some (Inr x, ext e s')"
    unfolding andThen_Inr using a(3) b(3) by blast
  with a b show "pos s' \<le> length (buf s') \<and> buf s' = buf s \<and>
      andThen m2 f2 (ext e s) = Some (Inr x, ext e s')"
    by simp
qed

lemma sim_wrapErr [sim_intros]:
  assumes "sim e m1 m2"
  shows "sim e (wrapErr msg m1) (wrapErr msg m2)"
proof (rule simI)
  fix s x s'
  assume inv: "pos s \<le> length (buf s)" and run: "wrapErr msg m1 s = Some (Inr x, s')"
  from run have m: "m1 s = Some (Inr x, s')"
    by (simp add: wrapErr_Inr)
  from simD [OF assms inv m]
  show "pos s' \<le> length (buf s') \<and> buf s' = buf s \<and>
      wrapErr msg m2 (ext e s) = Some (Inr x, ext e s')"
    by (simp add: wrapErr_Inr)
qed

lemma sim_if [sim_intros]:
  assumes "b \<Longrightarrow> sim e m1 m2" and "\<not> b \<Longrightarrow> sim e m1' m2'"
  shows "sim e (if b then m1 else m1') (if b then m2 else m2')"
  using assms by simp

lemma step_Inr:
  "step cnt s = Some (Inr x, s') \<longleftrightarrow>
     pos s + cnt \<le> length (buf s) \<and> x = pos s \<and> s' = s\<lparr>pos := pos s + cnt\<rparr>"
proof (cases "pos s + cnt \<le> length (buf s)")
  case True
  then show ?thesis by (auto simp add: step_def Let_def)
next
  case False
  then show ?thesis by (simp add: step_def Let_def)
qed

lemma sim_step [sim_intros]: "sim e (step cnt) (step cnt)"
  by (rule simI) (simp add: step_Inr ext_def)

text \<open>A read of \<open>k\<close> bytes that succeeds sees the same bytes in the longer buffer.\<close>

lemma sim_read:
  "sim e (andThen (step k) (\<lambda>offset s. ret (g (slice (buf s) offset (offset + k))) s))
         (andThen (step k) (\<lambda>offset s. ret (g (slice (buf s) offset (offset + k))) s))"
  by (rule simI) (auto simp add: andThen_Inr step_Inr ret_def ext_def slice_def)

lemma sim_read_to_pos:
  "sim e (andThen (step k) (\<lambda>offset s. ret (g (slice (buf s) offset (pos s))) s))
         (andThen (step k) (\<lambda>offset s. ret (g (slice (buf s) offset (pos s))) s))"
  by (rule simI) (auto simp add: andThen_Inr step_Inr ret_def ext_def slice_def)

lemma sim_readUInt8 [sim_intros]: "sim e readUInt8 readUInt8"
  unfolding readUInt8_def by (rule sim_read)

lemma sim_readInt8 [sim_intros]: "sim e readInt8 readInt8"
  unfolding readInt8_def by (rule sim_read)

lemma sim_readUInt16 [sim_intros]: "sim e readUInt16 readUInt16"
  unfolding readUInt16_def by (rule sim_read)

lemma sim_readInt16 [sim_intros]: "sim e readInt16 readInt16"
  unfolding readInt16_def by (rule sim_read)

lemma sim_readUInt32 [sim_intros]: "sim e readUInt32 readUInt32"
  unfolding readUInt32_def by (rule sim_read)

lemma sim_readInt32 [sim_intros]: "sim e readInt32 readInt32"
  unfolding readInt32_def by (rule sim_read)

lemma sim_readFloat32 [sim_intros]: "sim e readFloat32 readFloat32"
  unfolding readFloat32_def by (rule sim_read)

lemma sim_readInt64 [sim_intros]: "sim e readInt64 readInt64"
  unfolding readInt64_def by (rule sim_read)

lemma sim_readFloat64 [sim_intros]: "sim e readFloat64 readFloat64"
  unfolding readFloat64_def by (rule sim_read)

lemma sim_readString [sim_intros]: "sim e (readString cnt asHex) (readString cnt asHex)"
  unfolding readString_def
  by (rule simI) (auto simp add: andThen_Inr wrapErr_Inr step_Inr ret_def ext_def slice_def)

lemma sim_utf [sim_intros]: "sim e utf utf"
  unfolding utf_def by (intro sim_intros)

lemma sim_utfLong [sim_intros]: "sim e utfLong utfLong"
  unfolding utfLong_def by (intro sim_intros)

lemma sim_newHandle [sim_intros]: "sim e (newHandle v) (newHandle v)"
  by (rule simI) (auto simp add: newHandle_def ext_def)

lemma sim_newDeferredHandle [sim_intros]: "sim e newDeferredHandle newDeferredHandle"
  by (rule simI) (auto simp add: newDeferredHandle_def ext_def)

lemma sim_deferredHandle [sim_intros]: "sim e (deferredHandle idx v) (deferredHandle idx v)"
  by (rule simI) (auto simp add: deferredHandle_def ext_def)

lemma sim_allocClazz [sim_intros]: "sim e allocClazz allocClazz"
  by (rule simI) (auto simp add: allocClazz_def ext_def)

lemma sim_setClazz [sim_intros]: "sim e (setClazz a f) (setClazz a f)"
  by (rule simI) (auto simp add: setClazz_def ext_def)

lemma sim_getClazz [sim_intros]: "sim e (getClazz a) (getClazz a)"
  by (rule simI) (auto simp add: getClazz_def ext_def)

lemma sim_handles:
  "sim e (\<lambda>s. ret (g (handles s)) s) (\<lambda>s. ret (g (handles s)) s)"
  by (rule simI) (auto simp add: ret_def ext_def)

lemma sim_parseReference [sim_intros]: "sim e parseReference parseReference"
  unfolding parseReference_def Let_def
  by (intro sim_andThen sim_wrapErr sim_readInt32) (rule simI, auto simp add: ret_def ext_def)

lemma sim_parseBlockData [sim_intros]: "sim e parseBlockData parseBlockData"
  unfolding parseBlockData_def
  by (intro sim_andThen sim_wrapErr sim_readUInt8 sim_read_to_pos)

lemma sim_parseBlockDataLong [sim_intros]: "sim e parseBlockDataLong parseBlockDataLong"
  unfolding parseBlockDataLong_def
  by (intro sim_andThen sim_wrapErr sim_readUInt32 sim_read_to_pos)

lemma sim_parseString [sim_intros]: "sim e parseString parseString"
  unfolding parseString_def by (intro sim_intros)

lemma sim_parseLongString [sim_intros]: "sim e parseLongString parseLongString"
  unfolding parseLongString_def by (intro sim_intros)

lemma sim_parseNull [sim_intros]: "sim e parseNull parseNull"
  unfolding parseNull_def by (intro sim_intros)

lemma sim_parseEndBlockData [sim_intros]: "sim e parseEndBlockData parseEndBlockData"
  unfolding parseEndBlockData_def by (intro sim_intros)

lemma sim_table:
  assumes "o1 = None \<longleftrightarrow> o2 = None"
    and "\<And>h1 h2. o1 = Some h1 \<Longrightarrow> o2 = Some h2 \<Longrightarrow> sim e (g1 h1) (g2 h2)"
  shows "sim e (case o1 of None \<Rightarrow> throw er | Some h \<Rightarrow> g1 h)
               (case o2 of None \<Rightarrow> throw er | Some h \<Rightarrow> g2 h)"
  using assms by (cases o1; cases o2) (simp_all add: sim_throw)

lemma sim_primitiveHandlers:
  assumes c: "\<And>al. sim e (c1 al) (c2 al)"
  shows "(primitiveHandlers c1 t = None \<longleftrightarrow> primitiveHandlers c2 t = None) \<and>
         (\<forall>h1 h2. primitiveHandlers c1 t = Some h1 \<longrightarrow> primitiveHandlers c2 t = Some h2 \<longrightarrow>
            sim e h1 h2)"
  unfolding primitiveHandlers_def
  by (auto intro!: sim_intros c)

lemma sim_fieldDesc [sim_intros]:
  assumes c: "\<And>al. sim e (c1 al) (c2 al)"
  shows "sim e (fieldDesc c1) (fieldDesc c2)"
  unfolding fieldDesc_def Let_def
  by (intro sim_andThen sim_wrapErr sim_readUInt8 sim_utf sim_if c sim_ret)
     (auto intro!: sim_intros split: val.splits)

lemma sim_annotations_loop:
  assumes "sim e m1 m2" and "k \<le> k'"
  shows "sim e (annotations_loop k m1 anns) (annotations_loop k' m2 anns)"
  using assms(2)
proof (induction k arbitrary: k' anns)
  case 0
  show ?case by (simp add: sim_none)
next
  case (Suc k)
  then obtain j where j: "k' = Suc j" and le: "k \<le> j" by (cases k') simp_all
  show ?case
    unfolding j annotations_loop.simps
    by (intro sim_andThen sim_wrapErr assms(1) sim_if sim_ret Suc.IH le)
qed

lemma sim_annotations [sim_intros]:
  assumes c: "\<And>al. sim e (c1 al) (c2 al)" and "n \<le> n'"
  shows "sim e (annotations c1 n al) (annotations c2 n' al)"
  unfolding annotations_def by (intro sim_annotations_loop c assms(2))

lemma sim_classDesc [sim_intros]:
  assumes c: "\<And>al. sim e (c1 al) (c2 al)"
  shows "sim e (classDesc c1) (classDesc c2)"
  unfolding classDesc_def
  by (intro sim_andThen sim_wrapErr c) (auto intro!: sim_intros split: val.splits)

lemma sim_fields_loop [sim_intros]:
  assumes c: "\<And>al. sim e (c1 al) (c2 al)"
  shows "sim e (fields_loop c1 cls k) (fields_loop c2 cls k)"
proof (induction k)
  case 0
  show ?case by (simp add: sim_ret)
next
  case (Suc k)
  show ?case
    unfolding fields_loop.simps
    by (intro sim_andThen sim_wrapErr sim_fieldDesc c sim_setClazz Suc.IH)
qed

lemma sim_parseClassDesc [sim_intros]:
  assumes c: "\<And>al. sim e (c1 al) (c2 al)" and "n \<le> n'"
  shows "sim e (parseClassDesc c1 n) (parseClassDesc c2 n')"
  unfolding parseClassDesc_def
  by (intro sim_andThen sim_wrapErr sim_if sim_allocClazz sim_utf sim_setClazz sim_readString
      sim_newHandle sim_readUInt8 sim_readUInt16 sim_fields_loop sim_annotations sim_classDesc
      sim_ret c assms(2))
     (simp add: sim_ret)

lemma sim_parseClass [sim_intros]:
  assumes c: "\<And>al. sim e (c1 al) (c2 al)"
  shows "sim e (parseClass c1) (parseClass c2)"
  unfolding parseClass_def
  by (intro sim_andThen sim_wrapErr sim_classDesc sim_newHandle c)

lemma sim_array_loop [sim_intros]:
  assumes "sim e h1 h2"
  shows "sim e (array_loop h1 k array) (array_loop h2 k array)"
proof (induction k arbitrary: array)
  case 0
  show ?case by (simp add: sim_ret)
next
  case (Suc k)
  show ?case
    unfolding array_loop.simps
    by (intro sim_andThen sim_wrapErr assms Suc.IH)
qed

lemma sim_parseArray [sim_intros]:
  assumes c: "\<And>al. sim e (c1 al) (c2 al)"
  shows "sim e (parseArray c1) (parseArray c2)"
proof -
  have tail: "sim e
      (case cls of None \<Rightarrow> ret VNil
       | Some a \<Rightarrow> andThen (getClazz a) (\<lambda>r.
           if length (c_name r) < 2 then throw RuntimePanic
           else let t = string_of_rune (of_char (c_name r ! 1))
                in case primitiveHandlers c1 t of
                     None \<Rightarrow> throw (UnknownFieldType t)
                   | Some primHandler \<Rightarrow>
                       andThen (array_loop primHandler (nat (sint sz)) []) (\<lambda>array. ret (VSlice array))))
      (case cls of None \<Rightarrow> ret VNil
       | Some a \<Rightarrow> andThen (getClazz a) (\<lambda>r.
           if length (c_name r) < 2 then throw RuntimePanic
           else let t = string_of_rune (of_char (c_name r ! 1))
                in case primitiveHandlers c2 t of
                     None \<Rightarrow> throw (UnknownFieldType t)
                   | Some primHandler \<Rightarrow>
                       andThen (array_loop primHandler (nat (sint sz)) []) (\<lambda>array. ret (VSlice array))))"
    for cls and sz :: "32 word"
  proof (cases cls)
    case None
    then show ?thesis by (simp add: sim_ret)
  next
    case (Some a)
    show ?thesis
      unfolding Some option.case Let_def
      using sim_primitiveHandlers [OF c]
      by (intro sim_andThen sim_getClazz sim_if sim_throw sim_table)
         (auto intro!: sim_andThen sim_array_loop sim_ret)
  qed
  show ?thesis
    unfolding parseArray_def
    by (intro sim_andThen sim_wrapErr sim_classDesc c sim_handles [of e length] sim_newHandle
        sim_readInt32 sim_deferredHandle tail)
qed

lemma sim_parseEnum [sim_intros]:
  assumes c: "\<And>al. sim e (c1 al) (c2 al)"
  shows "sim e (parseEnum c1) (parseEnum c2)"
  unfolding parseEnum_def
  by (intro sim_andThen sim_wrapErr sim_classDesc sim_newDeferredHandle sim_deferredHandle c)

lemma sim_values_loop [sim_intros]:
  assumes c: "\<And>al. sim e (c1 al) (c2 al)"
  shows "sim e (values_loop c1 fs vals) (values_loop c2 fs vals)"
proof (induction fs arbitrary: vals)
  case Nil
  show ?case by (simp add: sim_ret)
next
  case (Cons f fs)
  show ?case
  proof (cases f)
    case None
    then show ?thesis by (simp add: Cons.IH)
  next
    case (Some fd)
    show ?thesis
      unfolding Some values_loop.simps
      using sim_primitiveHandlers [OF c]
      by (intro sim_table) (auto intro!: sim_andThen sim_wrapErr Cons.IH)
  qed
qed

lemma sim_values_go [sim_intros]:
  assumes c: "\<And>al. sim e (c1 al) (c2 al)"
  shows "sim e (values_go c1 cls) (values_go c2 cls)"
  unfolding values_go_def
  by (intro sim_andThen sim_getClazz sim_values_loop c)

lemma sim_postproc:
  "sim e (case r of Inl er \<Rightarrow> throw er | Inr d \<Rightarrow> ret d) (case r of Inl er \<Rightarrow> throw er | Inr d \<Rightarrow> ret d)"
  by (cases r) (simp_all add: sim_ret sim_throw)

lemma sim_annotationsAsMap [sim_intros]:
  assumes c: "\<And>al. sim e (c1 al) (c2 al)" and "n \<le> n'"
  shows "sim e (annotationsAsMap c1 n cls isBlock) (annotationsAsMap c2 n' cls isBlock)"
  unfolding annotationsAsMap_def Let_def
  by (intro sim_andThen sim_wrapErr sim_if sim_ret sim_values_go sim_annotations sim_getClazz
      c assms(2))
     (auto intro!: sim_postproc sim_ret split: option.splits)

lemma sim_classData [sim_intros]:
  assumes c: "\<And>al. sim e (c1 al) (c2 al)" and "n \<le> n'"
  shows "sim e (classData c1 n cls) (classData c2 n' cls)"
proof (cases cls)
  case None
  then show ?thesis by (simp add: classData_def sim_throw)
next
  case (Some a)
  show ?thesis
    unfolding Some classData_def option.case Let_def
    by (intro sim_andThen sim_getClazz sim_if sim_values_go sim_annotationsAsMap sim_throw
        c assms(2))
qed

lemma sim_recursiveClassData:
  assumes c: "\<And>al. sim e (c1 al) (c2 al)" and "n \<le> n'" and "k \<le> k'"
  shows "sim e (recursiveClassData c1 n k cls obj seen) (recursiveClassData c2 n' k' cls obj seen)"
  using assms(3)
proof (induction k arbitrary: k' cls obj seen)
  case 0
  show ?case by (simp add: sim_none)
next
  case (Suc k)
  then obtain j where j: "k' = Suc j" and le: "k \<le> j" by (cases k') simp_all
  show ?case
  proof (cases cls)
    case None
    then show ?thesis by (simp add: j sim_ret)
  next
    case (Some a)
    have sup: "sim e
        (case superCls of
           Some superC \<Rightarrow>
             if superC \<notin> sn then recursiveClassData c1 n k (Some superC) obj (insert superC sn)
             else ret (obj, sn)
         | None \<Rightarrow> ret (obj, sn))
        (case superCls of
           Some superC \<Rightarrow>
             if superC \<notin> sn then recursiveClassData c2 n' j (Some superC) obj (insert superC sn)
             else ret (obj, sn)
         | None \<Rightarrow> ret (obj, sn))" for superCls sn
      by (cases superCls) (auto intro!: sim_ret Suc.IH le)
    have rest: "sim e
        (case mapGet ob ''extends'' of
           Some (VMap extends) \<Rightarrow>
             andThen (wrapErr ''error reading recursive class data'' (classData c1 n (Some a)))
               (\<lambda>flds.
             andThen (getClazz a) (\<lambda>r.
               ret (foldl (\<lambda>obj (nm, v). mapSet obj nm v)
                      (mapSet ob ''extends'' (VMap (mapSet extends (c_name r) (VMap flds)))) flds,
                    sn)))
         | _ \<Rightarrow> throw UnexpectedExtends)
        (case mapGet ob ''extends'' of
           Some (VMap extends) \<Rightarrow>
             andThen (wrapErr ''error reading recursive class data'' (classData c2 n' (Some a)))
               (\<lambda>flds.
             andThen (getClazz a) (\<lambda>r.
               ret (foldl (\<lambda>obj (nm, v). mapSet obj nm v)
                      (mapSet ob ''extends'' (VMap (mapSet extends (c_name r) (VMap flds)))) flds,
                    sn)))
         | _ \<Rightarrow> throw UnexpectedExtends)" for ob sn
      by (auto intro!: sim_andThen sim_wrapErr sim_classData c assms(2) sim_getClazz sim_ret sim_throw
          split: option.splits val.splits)
    show ?thesis
      unfolding Some j recursiveClassData.simps option.case Let_def
      by (intro sim_andThen sim_getClazz sup) (auto intro!: rest)
  qed
qed

lemma sim_parseObject [sim_intros]:
  assumes c: "\<And>al. sim e (c1 al) (c2 al)" and "n \<le> n'"
  shows "sim e (parseObject c1 n) (parseObject c2 n')"
  unfolding parseObject_def Let_def
  by (intro sim_andThen sim_wrapErr sim_classDesc sim_newDeferredHandle sim_recursiveClassData
      c assms(2))
     (auto intro!: sim_deferredHandle)

lemma sim_knownParsers:
  assumes c: "\<And>al. sim e (c1 al) (c2 al)" and "n \<le> n'"
  shows "(knownParsers c1 n nm = None \<longleftrightarrow> knownParsers c2 n' nm = None) \<and>
         (\<forall>p1 p2. knownParsers c1 n nm = Some p1 \<longrightarrow> knownParsers c2 n' nm = Some p2 \<longrightarrow>
            sim e p1 p2)"
  unfolding knownParsers_def
  by (auto intro!: sim_intros c assms(2))

lemma sim_content_body:
  assumes c: "\<And>al. sim e (c1 al) (c2 al)" and "n \<le> n'"
  shows "sim e (content_body c1 n al) (content_body c2 n' al)"
  unfolding content_body_def Let_def
  using sim_knownParsers [OF c assms(2)]
  by (intro sim_andThen sim_readUInt8 sim_if sim_throw sim_table) auto

lemma sim_content: "sim e (content n al) (content (n + d) al)"
proof (induction n arbitrary: al)
  case 0
  show ?case by (simp add: sim_none)
next
  case (Suc n)
  show ?case
    by (simp del: content_body_def) (intro sim_content_body Suc.IH, simp)
qed

section \<open>Concatenated streams\<close>

lemma be2: "(bigEndian [a, b] :: 16 word) = push_bit 8 (ucast a) OR ucast b"
  by (simp add: bigEndian_def)

lemma be2_hi: "ucast (drop_bit 8 (bigEndian [a, b] :: 16 word)) = a"
  unfolding be2
  by (rule bit_word_eqI) (auto simp add: bit_simps dest: bit_imp_le_length)

lemma bigEndian2_hd:
  assumes "(bigEndian [a, b] :: 16 word) = 0xaced"
  shows "a = 0xac"
proof -
  have "a = ucast (drop_bit 8 (bigEndian [a, b] :: 16 word))" by (simp add: be2_hi)
  also have "\<dots> = ucast (drop_bit 8 (0xaced :: 16 word))" by (simp add: assms)
  also have "\<dots> = 0xac" by simp
  finally show ?thesis .
qed

lemma sim_magic: "sim e magic magic"
  unfolding magic_def by (intro sim_andThen sim_readUInt16 sim_if sim_throw sim_ret)

lemma version_Inr:
  "version s = Some (Inr x, s') \<longleftrightarrow> readUInt16 s = Some (Inr 5, s')"
proof (cases "readUInt16 s")
  case None
  then show ?thesis by (simp add: version_def)
next
  case (Some r)
  obtain v s1 where r: "r = (v, s1)" by (cases r)
  show ?thesis
  proof (cases v)
    case (Inl er)
    with Some r show ?thesis by (simp add: version_def)
  next
    case (Inr ver)
    with Some r show ?thesis by (auto simp add: version_def)
  qed
qed

lemma sim_version: "sim e version version"
proof (rule simI)
  fix s x s'
  assume inv: "pos s \<le> length (buf s)" and run: "version s = Some (Inr x, s')"
  from run have r: "readUInt16 s = Some (Inr 5, s')" by (simp add: version_Inr)
  from simD [OF sim_readUInt16 inv r]
  show "pos s' \<le> length (buf s') \<and> buf s' = buf s \<and> version (ext e s) = Some (Inr x, ext e s')"
    by (simp add: version_Inr)
qed

lemma content_not_a_tag:
  assumes "pos s < length (buf s)" and "buf s ! pos s - 0x70 > typeNameMax"
  shows "content (Suc n) al s = Some (Inl (UnknownTag (buf s ! pos s)), s\<lparr>pos := pos s + 1\<rparr>)"
proof -
  have "readUInt8 s = Some (Inr (buf s ! pos s), s\<lparr>pos := pos s + 1\<rparr>)"
    using assms(1)
    by (simp add: readUInt8_def andThen_def step_def ret_def Let_def slice_def bigEndian_def
        take_Suc_conv_app_nth)
  then show ?thesis
    using assms(2) by (simp add: content_body_def andThen_def Let_def throw_def)
qed

lemma parse_loop_stop:
  assumes "\<not> pos s < length (buf s)"
  shows "parse_loop n acc s = Some (acc, None, s)"
  using assms by (cases n) simp_all

lemma parse_loop_concat:
  assumes "parse_loop n acc s = Some (vs, None, sP)" and "pos s \<le> length (buf s)"
    and "n \<le> n'" and "e \<noteq> []" and "hd e - 0x70 > typeNameMax"
  shows "buf sP = buf s \<and> pos sP = length (buf s) \<and>
         parse_loop (n' + 2) acc (ext e s) =
           Some (vs, Some (UnknownTag (hd e)), ext e (sP\<lparr>pos := pos sP + 1\<rparr>))"
  using assms(1,2,3)
proof (induction n arbitrary: acc s n')
  case 0
  from "0.prems"(1) have stop: "\<not> pos s < length (buf s)" and r: "vs = acc" "sP = s"
    by (simp_all split: if_splits)
  with "0.prems"(2) have p: "pos s = length (buf s)" by simp
  have lt: "pos (ext e s) < length (buf (ext e s))" using p assms(4) by simp
  have b: "buf (ext e s) ! pos (ext e s) = hd e"
    using p assms(4) by (simp add: nth_append hd_conv_nth)
  have "content (Suc n') None (ext e s) =
      Some (Inl (UnknownTag (hd e)), (ext e s)\<lparr>pos := pos (ext e s) + 1\<rparr>)"
    using content_not_a_tag [where n = n' and al = None, OF lt] assms(5) unfolding b
      by (simp del: content.simps)
  then have "parse_loop (Suc (Suc n')) acc (ext e s) =
      Some (acc, Some (UnknownTag (hd e)), (ext e s)\<lparr>pos := pos (ext e s) + 1\<rparr>)"
    using lt by (simp del: content.simps)
  then show ?case using p r by (simp add: ext_def)
next
  case (Suc n)
  show ?case
  proof (cases "pos s < length (buf s)")
    case False
    with Suc.prems(1) have r: "vs = acc" "sP = s" by simp_all
    from False Suc.prems(2) have p: "pos s = length (buf s)" by simp
    have lt: "pos (ext e s) < length (buf (ext e s))" using p assms(4) by simp
    have b: "buf (ext e s) ! pos (ext e s) = hd e"
      using p assms(4) by (simp add: nth_append hd_conv_nth)
    have "content (Suc n') None (ext e s) =
        Some (Inl (UnknownTag (hd e)), (ext e s)\<lparr>pos := pos (ext e s) + 1\<rparr>)"
      using content_not_a_tag [where n = n' and al = None, OF lt] assms(5) unfolding b
      by (simp del: content.simps)
    then have "parse_loop (Suc (Suc n')) acc (ext e s) =
        Some (acc, Some (UnknownTag (hd e)), (ext e s)\<lparr>pos := pos (ext e s) + 1\<rparr>)"
      using lt by (simp del: content.simps)
    then show ?thesis using p r by (simp add: ext_def)
  next
    case True
    obtain j where j: "n' = Suc j" and le: "n \<le> j"
      using Suc.prems(3) by (cases n') simp_all
    from Suc.prems(1) True obtain nxt s1 where c: "content n None s = Some (Inr nxt, s1)"
      and l: "parse_loop n (acc @ [nxt]) s1 = Some (vs, None, sP)"
      by (auto simp del: content.simps split: option.splits sum.splits)
    have "sim e (content n None) (content (n + (j + 2 - n)) None)" by (rule sim_content)
    then have sm: "sim e (content n None) (content (j + 2) None)" using le by simp
    note d = simD [OF sm Suc.prems(2) c]
    note ih = Suc.IH [OF l d(1) le]
    have lt: "pos (ext e s) < length (buf (ext e s))" using True by simp
    have "parse_loop (Suc (j + 2)) acc (ext e s) = parse_loop (j + 2) (acc @ [nxt]) (ext e s1)"
      using lt d(3) by (simp del: content.simps)
    with ih d(2) show ?thesis by (simp add: j)
  qed
qed

lemma readUInt16_Inr:
  "readUInt16 s = Some (Inr v, s') \<longleftrightarrow>
     pos s + 2 \<le> length (buf s) \<and> v = bigEndian (take 2 (drop (pos s) (buf s))) \<and>
     s' = s\<lparr>pos := pos s + 2\<rparr>"
  unfolding readUInt16_def andThen_Inr step_Inr
  by (auto simp add: ret_def slice_def)

lemma magic_Inr:
  "magic s = Some (Inr x, s') \<longleftrightarrow> readUInt16 s = Some (Inr 0xaced, s')"
  unfolding magic_def andThen_Inr
  by (auto simp add: ret_def throw_def)

lemma ParseSerializedObject_Some:
  assumes "ParseSerializedObject n b = Some (vs, None, sP)"
  shows "\<exists>s2 s4. magic \<lparr>buf = b, pos = 0, handles = [], clazzes = []\<rparr> = Some (Inr (), s2) \<and>
           version s2 = Some (Inr (), s4) \<and> parse_loop n [] s4 = Some (vs, None, sP)"
proof -
  let ?s0 = "\<lparr>buf = b, pos = 0, handles = [], clazzes = []\<rparr>"
  from assms obtain s2 where m: "magic ?s0 = Some (Inr (), s2)"
    by (cases "magic ?s0") (auto simp add: ParseSerializedObject_def Let_def split: sum.splits)
  from assms m obtain s4 where v: "version s2 = Some (Inr (), s4)"
    by (cases "version s2") (auto simp add: ParseSerializedObject_def Let_def split: sum.splits)
  from assms m v have "parse_loop n [] s4 = Some (vs, None, sP)"
    by (simp add: ParseSerializedObject_def Let_def)
  with m v show ?thesis by blast
qed

lemma valid_stream_hd:
  assumes "ParseSerializedObject m Q = Some (ws, None, sQ)"
  shows "Q \<noteq> [] \<and> hd Q = 0xac"
proof -
  from ParseSerializedObject_Some [OF assms] obtain s2
    where "magic \<lparr>buf = Q, pos = 0, handles = [], clazzes = []\<rparr> = Some (Inr (), s2)" by blast
  then have len: "2 \<le> length Q" and be: "(bigEndian (take 2 Q) :: 16 word) = 0xaced"
    by (simp_all add: magic_Inr readUInt16_Inr)
  from len obtain a b rest where Q: "Q = a # b # rest"
    by (cases Q; cases "tl Q") auto
  from be have "(bigEndian [a, b] :: 16 word) = 0xaced" by (simp add: Q)
  then have "a = 0xac" by (rule bigEndian2_hd)
  then show ?thesis by (simp add: Q)
qed

text \<open>
  C3, as the code has it. Let \<open>P\<close> and \<open>Q\<close> be valid complete streams: each parses
  without an error under some budget. Then the parse of \<open>P @ Q\<close> under every budget that
  is larger by two does not succeed: it returns the values of \<open>P\<close> and the error
  \<open>UnknownTag 0xac\<close>. The loop of \<^verbatim>\<open>ParseSerializedObject\<close> reads the first byte
  of the header of \<open>Q\<close> as a type tag; no value of \<open>Q\<close> is produced.
\<close>

theorem concat_streams_fail:
  assumes "ParseSerializedObject n P = Some (vs, None, sP)"
    and "ParseSerializedObject m Q = Some (ws, None, sQ)"
    and "n + 2 \<le> k"
  shows "ParseSerializedObject k (P @ Q) =
           Some (vs, Some (UnknownTag 0xac), sP\<lparr>buf := P @ Q, pos := length P + 1\<rparr>)"
proof -
  let ?s0 = "\<lparr>buf = P, pos = 0, handles = [], clazzes = []\<rparr>"
  from ParseSerializedObject_Some [OF assms(1)] obtain s2 s4
    where m: "magic ?s0 = Some (Inr (), s2)" and v: "version s2 = Some (Inr (), s4)"
      and l: "parse_loop n [] s4 = Some (vs, None, sP)" by blast
  from valid_stream_hd [OF assms(2)] have Q: "Q \<noteq> []" "hd Q = 0xac" by simp_all
  have inv0: "pos ?s0 \<le> length (buf ?s0)" by simp
  note dm = simD [OF sim_magic [of Q] inv0 m]
  note dv = simD [OF sim_version [of Q] dm(1) v]
  have tag: "hd Q - 0x70 > typeNameMax"
    by (simp add: Q typeNameMax_def typeNames_def)
  have le: "n \<le> k - 2" using assms(3) by simp
  note pl = parse_loop_concat [OF l dv(1) le Q(1) tag]
  have k: "k - 2 + 2 = k" using assms(3) by simp
  have bufP: "buf sP = P" using pl dv(2) dm(2) by simp
  have posP: "pos sP = length P" using pl dv(2) dm(2) by simp
  have e0: "ext Q ?s0 = \<lparr>buf = P @ Q, pos = 0, handles = [], clazzes = []\<rparr>"
    by (simp add: ext_def)
  have fin: "ext Q (sP\<lparr>pos := pos sP + 1\<rparr>) = sP\<lparr>buf := P @ Q, pos := length P + 1\<rparr>"
    by (simp add: ext_def bufP posP)
  have "ParseSerializedObject k (P @ Q) = parse_loop k [] (ext Q s4)"
    using dm(3) dv(3) by (simp add: ParseSerializedObject_def Let_def e0)
  also have "\<dots> = Some (vs, Some (UnknownTag (hd Q)), ext Q (sP\<lparr>pos := pos sP + 1\<rparr>))"
    using pl unfolding k by blast
  finally have "ParseSerializedObject k (P @ Q) =
      Some (vs, Some (UnknownTag (hd Q)), ext Q (sP\<lparr>pos := pos sP + 1\<rparr>))" .
  then show ?thesis unfolding fin Q(2) .
qed

text \<open>
  A parse that succeeds under one budget succeeds with the same result under every
  larger one, so a stream is valid or not whatever the budget.
\<close>

lemma ext_Nil: "ext [] s = s"
  by (simp add: ext_def)

lemma content_budget_mono:
  assumes "content n al s = Some (Inr x, s')" and "pos s \<le> length (buf s)"
  shows "content (n + d) al s = Some (Inr x, s')" and "pos s' \<le> length (buf s')"
  using simD [OF sim_content [of "[]" n al d] assms(2,1)] by (simp_all add: ext_Nil)

lemma parse_loop_budget_mono:
  assumes "parse_loop n acc s = Some (vs, None, sP)" and "pos s \<le> length (buf s)"
  shows "parse_loop (n + d) acc s = Some (vs, None, sP)"
  using assms
proof (induction n arbitrary: acc s)
  case 0
  then have "\<not> pos s < length (buf s)" and "vs = acc" and "sP = s"
    by (simp_all split: if_splits)
  then show ?case by (simp add: parse_loop_stop)
next
  case (Suc n)
  show ?case
  proof (cases "pos s < length (buf s)")
    case False
    with Suc.prems(1) have "vs = acc" and "sP = s" by simp_all
    with False show ?thesis by (simp add: parse_loop_stop)
  next
    case True
    from Suc.prems(1) True obtain nxt s1 where c: "content n None s = Some (Inr nxt, s1)"
      and l: "parse_loop n (acc @ [nxt]) s1 = Some (vs, None, sP)"
      by (auto simp del: content.simps split: option.splits sum.splits)
    note m = content_budget_mono [OF c Suc.prems(2)]
    have "parse_loop (Suc n + d) acc s = parse_loop (n + d) (acc @ [nxt]) s1"
      using True m(1) [of d] by (simp del: content.simps)
    with Suc.IH [OF l m(2)] show ?thesis by simp
  qed
qed

lemma ParseSerializedObject_budget_mono:
  assumes "ParseSerializedObject n b = Some (vs, None, sP)"
  shows "ParseSerializedObject (n + d) b = Some (vs, None, sP)"
proof -
  let ?s0 = "\<lparr>buf = b, pos = 0, handles = [], clazzes = []\<rparr>"
  from ParseSerializedObject_Some [OF assms] obtain s2 s4
    where m: "magic ?s0 = Some (Inr (), s2)" and v: "version s2 = Some (Inr (), s4)"
      and l: "parse_loop n [] s4 = Some (vs, None, sP)" by blast
  have inv0: "pos ?s0 \<le> length (buf ?s0)" by simp
  note dm = simD [OF sim_magic [of "[]"] inv0 m]
  note dv = simD [OF sim_version [of "[]"] dm(1) v]
  from parse_loop_budget_mono [OF l dv(1), of d] m v show ?thesis
    by (simp add: ParseSerializedObject_def Let_def)
qed

theorem concat_streams_fail_witness:
  "ParseSerializedObject 2 [0xac, 0xed, 0x00, 0x05, 0x74, 0x00, 0x01, 0x61] =
     Some ([VString ''a''], None,
       \<lparr>buf = [0xac, 0xed, 0x00, 0x05, 0x74, 0x00, 0x01, 0x61], pos = 8,
          handles = [VString ''a''], clazzes = []\<rparr>) \<and>
   ParseSerializedObject 2 [0xac, 0xed, 0x00, 0x05, 0x74, 0x00, 0x01, 0x62] =
     Some ([VString ''b''], None,
       \<lparr>buf = [0xac, 0xed, 0x00, 0x05, 0x74, 0x00, 0x01, 0x62], pos = 8,
          handles = [VString ''b''], clazzes = []\<rparr>) \<and>
   ParseSerializedObject 4
     ([0xac, 0xed, 0x00, 0x05, 0x74, 0x00, 0x01, 0x61] @
      [0xac, 0xed, 0x00, 0x05, 0x74, 0x00, 0x01, 0x62]) =
     Some ([VString ''a''], Some (UnknownTag 0xac),
       \<lparr>buf = [0xac, 0xed, 0x00, 0x05, 0x74, 0x00, 0x01, 0x61] @
              [0xac, 0xed, 0x00, 0x05, 0x74, 0x00, 0x01, 0x62],
          pos = 9, handles = [VString ''a''], clazzes = []\<rparr>)"
proof -
  have p: "ParseSerializedObject 2 [0xac, 0xed, 0x00, 0x05, 0x74, 0x00, 0x01, 0x61] =
     Some ([VString ''a''], None,
       \<lparr>buf = [0xac, 0xed, 0x00, 0x05, 0x74, 0x00, 0x01, 0x61], pos = 8,
          handles = [VString ''a''], clazzes = []\<rparr>)"
    by code_simp
  have q: "ParseSerializedObject 2 [0xac, 0xed, 0x00, 0x05, 0x74, 0x00, 0x01, 0x62] =
     Some ([VString ''b''], None,
       \<lparr>buf = [0xac, 0xed, 0x00, 0x05, 0x74, 0x00, 0x01, 0x62], pos = 8,
          handles = [VString ''b''], clazzes = []\<rparr>)"
    by code_simp
  have k: "2 + 2 \<le> (4 :: nat)" by simp
  from concat_streams_fail [OF p q k] p q show ?thesis by simp
qed

text \<open>
  C3 as stated fails: the streams \<open>ac ed 00 05 74 00 01 61\<close> and
  \<open>ac ed 00 05 74 00 01 62\<close> parse to the strings \<^verbatim>\<open>"a"\<close> and \<^verbatim>\<open>"b"\<close>, and the parse of
  their concatenation is not the success with the two strings but the error
  \<open>UnknownTag 0xac\<close> after the first.
\<close>

theorem concat_streams_counterexample:
  "ParseSerializedObject 2 [0xac, 0xed, 0x00, 0x05, 0x74, 0x00, 0x01, 0x61] =
     Some ([VString ''a''], None,
       \<lparr>buf = [0xac, 0xed, 0x00, 0x05, 0x74, 0x00, 0x01, 0x61], pos = 8,
          handles = [VString ''a''], clazzes = []\<rparr>) \<and>
   ParseSerializedObject 2 [0xac, 0xed, 0x00, 0x05, 0x74, 0x00, 0x01, 0x62] =
     Some ([VString ''b''], None,
       \<lparr>buf = [0xac, 0xed, 0x00, 0x05, 0x74, 0x00, 0x01, 0x62], pos = 8,
          handles = [VString ''b''], clazzes = []\<rparr>) \<and>
   ParseSerializedObject 4
     ([0xac, 0xed, 0x00, 0x05, 0x74, 0x00, 0x01, 0x61] @
      [0xac, 0xed, 0x00, 0x05, 0x74, 0x00, 0x01, 0x62]) \<noteq>
     Some ([VString ''a''] @ [VString ''b''], None,
       \<lparr>buf = [0xac, 0xed, 0x00, 0x05, 0x74, 0x00, 0x01, 0x61] @
              [0xac, 0xed, 0x00, 0x05, 0x74, 0x00, 0x01, 0x62],
          pos = 16, handles = [VString ''a'', VString ''b''], clazzes = []\<rparr>) \<and>
   ParseSerializedObject 4
     ([0xac, 0xed, 0x00, 0x05, 0x74, 0x00, 0x01, 0x61] @
      [0xac, 0xed, 0x00, 0x05, 0x74, 0x00, 0x01, 0x62]) =
     Some ([VString ''a''], Some (UnknownTag 0xac),
       \<lparr>buf = [0xac, 0xed, 0x00, 0x05, 0x74, 0x00, 0x01, 0x61] @
              [0xac, 0xed, 0x00, 0x05, 0x74, 0x00, 0x01, 0x62],
          pos = 9, handles = [VString ''a''], clazzes = []\<rparr>)"
  by code_simp

end
